theory Spec2Isabelle
  imports
    Main
    "HOL-Library.List_Lexorder"
    "HOL-Library.Product_Lexorder"
begin

section \<open>Lemon: a lazily loaded file-system tree\<close>

text \<open>
  A shallow embedding of \<^verbatim>\<open>src/Lemon.py\<close>. The program is a terminal file browser:
  class \<^verbatim>\<open>Lemon\<close> owns one tree widget, fills a node's children from the directory
  listing (\<^verbatim>\<open>load_children\<close>), refreshes at the cursor (\<^verbatim>\<open>action_refresh\<close>), opens a
  file with the platform's handler (\<^verbatim>\<open>open_file\<close>) and deletes after a confirmation
  dialog (\<^verbatim>\<open>action_delete_selected\<close>, \<^verbatim>\<open>handle_delete_confirm\<close>).

  What the program imports (pathlib, shutil, the widget library) is its environment. It
  is modelled here by an explicit file-system table, an explicit widget tree and a
  record of the host's behaviour; every Python exception is a value of type \<open>exn\<close>.
\<close>

subsection \<open>Strings, paths and exceptions\<close>

text \<open>
  A Python \<^verbatim>\<open>str\<close> is the list of its code points, each a natural number; strings
  compare as Python compares them, lexicographically by code point, a proper prefix
  first. \<open>str\<close> gives the Python string of a literal of ASCII characters.
\<close>

type_synonym pystr = "nat list"

definition str :: "string \<Rightarrow> pystr" where
  "str s = map (of_char :: char \<Rightarrow> nat) s"

text \<open>
  \<^verbatim>\<open>str.lower\<close> belongs to the Python library. It is a parameter, \<open>lw\<close>, of the loader
  and of every handler that loads, and what is proved below with \<open>lw\<close> holds for every
  function from strings to strings. The examples have names of ASCII characters only;
  on such a string \<^verbatim>\<open>str.lower\<close> gives \<open>ascii_lower\<close>, which is the parameter of the
  examples.
\<close>

definition ascii_lower :: "pystr \<Rightarrow> pystr" where
  "ascii_lower s = map (\<lambda>c. if 65 \<le> c \<and> c \<le> 90 then c + 32 else c) s"

text \<open>
  A \<^verbatim>\<open>pathlib.Path\<close>: its anchor (\<^verbatim>\<open>/\<close>, or a drive such as \<^verbatim>\<open>C:\\<close>) and the
  components below it. \<^verbatim>\<open>Path.name\<close> is the last component, and the empty string for
  a bare anchor; \<open>joinpath p n\<close> is \<^verbatim>\<open>p / n\<close>.
\<close>

datatype path = Path (anchor: pystr) (parts: "pystr list")

definition name :: "path \<Rightarrow> pystr" where
  "name p = (if parts p = [] then [] else last (parts p))"

definition joinpath :: "path \<Rightarrow> pystr \<Rightarrow> path" where
  "joinpath p n = Path (anchor p) (parts p @ [n])"

definition is_entry_of :: "path \<Rightarrow> path \<Rightarrow> bool" where
  "is_entry_of p q \<longleftrightarrow>
     anchor q = anchor p \<and> parts q \<noteq> [] \<and> butlast (parts q) = parts p"

text \<open>
  The exceptions the program tells apart in its \<^verbatim>\<open>except\<close> clauses, each with the
  text \<^verbatim>\<open>str(e)\<close> gives. \<open>OtherException\<close> is any other subclass of \<^verbatim>\<open>Exception\<close>
  (another \<^verbatim>\<open>OSError\<close>, an \<^verbatim>\<open>AttributeError\<close>, ...).
\<close>

datatype exn =
    PermissionError pystr
  | FileNotFoundError pystr
  | OtherException pystr

fun str_exn :: "exn \<Rightarrow> pystr" where
  "str_exn (PermissionError m) = m"
| "str_exn (FileNotFoundError m) = m"
| "str_exn (OtherException m) = m"

subsection \<open>The file system\<close>

text \<open>
  The file system is a table from paths to objects, in the order in which the operating
  system lists them. An object has a kind and says which of the system calls on it
  fail: \<open>stat_error\<close> is what \<^verbatim>\<open>stat\<close> raises (an error pathlib propagates, such as
  a permission error), \<open>list_error\<close> what listing the directory raises, \<open>remove_error\<close>
  what removing the object raises. The table changes only when the program deletes.

  Whether \<^verbatim>\<open>Path.is_dir\<close> can raise depends on the version of pathlib: through Python
  3.12 it propagates every error of \<^verbatim>\<open>stat\<close> but "not found". The program expects
  that (line 97 catches \<^verbatim>\<open>PermissionError\<close> around \<^verbatim>\<open>entry.is_dir()\<close>). Where a
  version answers \<open>False\<close> instead, the file systems to look at are those in which every
  \<open>stat_error\<close> is \<open>None\<close>.
\<close>

datatype fkind = RegularFile | Directory | Special

record fobj =
  kind :: fkind
  stat_error :: "exn option"
  list_error :: "exn option"
  remove_error :: "exn option"

type_synonym filesystem = "(path \<times> fobj) list"

definition stat :: "filesystem \<Rightarrow> path \<Rightarrow> exn + fkind option" where
  "stat fsys p =
     (case map_of fsys p of
        None \<Rightarrow> Inr None
      | Some ob \<Rightarrow> (case stat_error ob of Some e \<Rightarrow> Inl e | None \<Rightarrow> Inr (Some (kind ob))))"

text \<open>
  \<^verbatim>\<open>Path.is_dir\<close>, \<^verbatim>\<open>Path.is_file\<close> and \<^verbatim>\<open>Path.exists\<close>: \<open>False\<close> for a path that is
  not there, the propagated error of \<^verbatim>\<open>stat\<close> otherwise.
\<close>

definition is_dir :: "filesystem \<Rightarrow> path \<Rightarrow> exn + bool" where
  "is_dir fsys p = (case stat fsys p of Inl e \<Rightarrow> Inl e | Inr k \<Rightarrow> Inr (k = Some Directory))"

definition is_file :: "filesystem \<Rightarrow> path \<Rightarrow> exn + bool" where
  "is_file fsys p = (case stat fsys p of Inl e \<Rightarrow> Inl e | Inr k \<Rightarrow> Inr (k = Some RegularFile))"

definition path_exists :: "filesystem \<Rightarrow> path \<Rightarrow> exn + bool" where
  "path_exists fsys p = (case stat fsys p of Inl e \<Rightarrow> Inl e | Inr k \<Rightarrow> Inr (k \<noteq> None))"

definition no_such_file :: pystr where
  "no_such_file = (str ''[Errno 2] No such file or directory'')"

definition not_a_directory :: pystr where
  "not_a_directory = (str ''[Errno 20] Not a directory'')"

definition is_a_directory :: pystr where
  "is_a_directory = (str ''[Errno 21] Is a directory'')"

text \<open>\<^verbatim>\<open>Path.iterdir\<close>, read to its end: the entries of the directory, in table order.\<close>

definition iterdir :: "filesystem \<Rightarrow> path \<Rightarrow> exn + path list" where
  "iterdir fsys p =
     (case map_of fsys p of
        None \<Rightarrow> Inl (FileNotFoundError no_such_file)
      | Some ob \<Rightarrow>
          if kind ob \<noteq> Directory then Inl (OtherException not_a_directory)
          else (case list_error ob of
                  Some e \<Rightarrow> Inl e
                | None \<Rightarrow> Inr (filter (is_entry_of p) (map fst fsys))))"

text \<open>\<^verbatim>\<open>Path.unlink\<close>: the new table, or the error raised.\<close>

definition unlink :: "filesystem \<Rightarrow> path \<Rightarrow> exn + filesystem" where
  "unlink fsys p =
     (case map_of fsys p of
        None \<Rightarrow> Inl (FileNotFoundError no_such_file)
      | Some ob \<Rightarrow>
          (case remove_error ob of
             Some e \<Rightarrow> Inl e
           | None \<Rightarrow>
               if kind ob = Directory then Inl (OtherException is_a_directory)
               else Inr (filter (\<lambda>(q, _). q \<noteq> p) fsys)))"

text \<open>
  \<^verbatim>\<open>shutil.rmtree\<close>: removes the directory and everything below it. The objects go in
  table order; the first one that cannot be removed stops the walk with its error, and
  what was removed before it stays removed.
\<close>

definition is_below :: "path \<Rightarrow> path \<Rightarrow> bool" where
  "is_below p q \<longleftrightarrow>
     anchor q = anchor p \<and> take (length (parts p)) (parts q) = parts p"

fun rmtree_walk :: "path \<Rightarrow> filesystem \<Rightarrow> exn option \<times> filesystem" where
  "rmtree_walk p [] = (None, [])"
| "rmtree_walk p ((q, ob) # rest) =
     (if is_below p q then
        (case remove_error ob of
           Some e \<Rightarrow> (Some e, (q, ob) # rest)
         | None \<Rightarrow> rmtree_walk p rest)
      else (case rmtree_walk p rest of (r, rest') \<Rightarrow> (r, (q, ob) # rest')))"

definition rmtree :: "filesystem \<Rightarrow> path \<Rightarrow> exn option \<times> filesystem" where
  "rmtree fsys p =
     (case map_of fsys p of
        None \<Rightarrow> (Some (FileNotFoundError no_such_file), fsys)
      | Some ob \<Rightarrow>
          if kind ob \<noteq> Directory then (Some (OtherException not_a_directory), fsys)
          else rmtree_walk p fsys)"

subsection \<open>The widget tree\<close>

text \<open>
  A \<^verbatim>\<open>TreeNode\<close> of the widget library: its label, its \<^verbatim>\<open>data\<close> (a path, or \<^verbatim>\<open>None\<close>),
  whether it may be expanded, whether it is expanded, and its children in display
  order. \<open>data_is_dir\<close> is the attribute the program attaches to directory nodes after
  creating them: \<open>None\<close> when the node has no such attribute (\<^verbatim>\<open>hasattr\<close> is false).

  \<^verbatim>\<open>node.expand()\<close> is the change of the flag only: the event the library posts for
  it is delivered later, to \<^verbatim>\<open>on_tree_node_expanded\<close>, a handler of its own below.

  Labels are kept by their template: \<open>Folder s\<close> is the folder sign followed by \<open>s\<close>,
  \<open>Plain s\<close> is \<open>s\<close> itself, \<open>TreeTitle\<close> is the title of the whole tree,
  \<open>NoPermission\<close> is the fixed text of line 100 and \<open>LoadError m\<close> the text of line 102
  around the message \<open>m\<close>.
\<close>

datatype label =
    TreeTitle
  | Folder pystr
  | Plain pystr
  | NoPermission
  | LoadError pystr

datatype tnode =
  TreeNode (label: label) (data: "path option") (allow_expand: bool)
    (is_expanded: bool) (data_is_dir: "bool option") (children: "tnode list")

fun set_children :: "tnode list \<Rightarrow> tnode \<Rightarrow> tnode" where
  "set_children cs (TreeNode l d a e t _) = TreeNode l d a e t cs"

fun set_data_is_dir :: "bool \<Rightarrow> tnode \<Rightarrow> tnode" where
  "set_data_is_dir b (TreeNode l d a e _ cs) = TreeNode l d a e (Some b) cs"

text \<open>
  \<^verbatim>\<open>node.expand()\<close> and \<^verbatim>\<open>node.collapse()\<close> set the expansion flag;
  \<^verbatim>\<open>node.remove_children()\<close> empties the list of children.
\<close>

fun expand :: "tnode \<Rightarrow> tnode" where
  "expand (TreeNode l d a _ t cs) = TreeNode l d a True t cs"

fun collapse :: "tnode \<Rightarrow> tnode" where
  "collapse (TreeNode l d a _ t cs) = TreeNode l d a False t cs"

definition remove_children :: "tnode \<Rightarrow> tnode" where
  "remove_children n = set_children [] n"

text \<open>
  \<^verbatim>\<open>node.add(label, data, allow_expand)\<close> appends a new collapsed child without
  children and without the attribute; \<open>add_child\<close> appends a child already built.
\<close>

definition new_node :: "label \<Rightarrow> path option \<Rightarrow> bool \<Rightarrow> tnode" where
  "new_node l d a = TreeNode l d a False None []"

definition add_child :: "tnode \<Rightarrow> tnode \<Rightarrow> tnode" where
  "add_child c n = set_children (children n @ [c]) n"

subsection \<open>The loader: \<^verbatim>\<open>load_children\<close> (lines 81 to 102)\<close>

text \<open>
  The sort key of line 88, \<^verbatim>\<open>(not x.is_dir(), x.name.lower())\<close>. Computing it may
  raise what \<^verbatim>\<open>is_dir\<close> raises.
\<close>

definition entry_key :: "(pystr \<Rightarrow> pystr) \<Rightarrow> filesystem \<Rightarrow> path \<Rightarrow> exn + (bool \<times> pystr)" where
  "entry_key lw fsys x =
     (case is_dir fsys x of Inl e \<Rightarrow> Inl e | Inr d \<Rightarrow> Inr (\<not> d, lw (name x)))"

fun try_map :: "('a \<Rightarrow> exn + 'b) \<Rightarrow> 'a list \<Rightarrow> exn + 'b list" where
  "try_map f [] = Inr []"
| "try_map f (x # xs) =
     (case f x of
        Inl e \<Rightarrow> Inl e
      | Inr y \<Rightarrow> (case try_map f xs of Inl e \<Rightarrow> Inl e | Inr ys \<Rightarrow> Inr (y # ys)))"

text \<open>
  \<^verbatim>\<open>sorted(path.iterdir(), key=...)\<close>: the listing is read, the key of every entry is
  computed in listing order, and the entries are sorted by their keys. Python's sort
  is stable, as \<open>sort_key\<close> is, so entries with equal keys keep their listing order.
\<close>

definition sorted_entries :: "(pystr \<Rightarrow> pystr) \<Rightarrow> filesystem \<Rightarrow> path \<Rightarrow> exn + path list" where
  "sorted_entries lw fsys p =
     (case iterdir fsys p of
        Inl e \<Rightarrow> Inl e
      | Inr es \<Rightarrow>
          (case try_map (entry_key lw fsys) es of
             Inl e \<Rightarrow> Inl e
           | Inr ks \<Rightarrow> Inr (map snd (sort_key fst (zip ks es)))))"

text \<open>
  The body of the inner \<^verbatim>\<open>try\<close> (lines 91 to 96) for one entry: the exception raised,
  if any, and the node as it is then.
\<close>

definition add_entry :: "filesystem \<Rightarrow> path \<Rightarrow> tnode \<Rightarrow> exn option \<times> tnode" where
  "add_entry fsys entry n =
     (case is_dir fsys entry of
        Inl e \<Rightarrow> (Some e, n)
      | Inr False \<Rightarrow> (None, add_child (new_node (Plain (name entry)) (Some entry) False) n)
      | Inr True \<Rightarrow>
          (case is_file fsys entry of
             Inl e \<Rightarrow> (Some e, n)
           | Inr True \<Rightarrow>
               (None, add_child (new_node (Plain (name entry)) (Some entry) False) n)
           | Inr False \<Rightarrow>
               (None,
                add_child
                  (set_data_is_dir True (new_node (Folder (name entry)) (Some entry) True))
                  n)))"

text \<open>
  The \<^verbatim>\<open>for\<close> loop of lines 89 to 98: a permission error on one entry skips the entry,
  any other exception leaves the loop.
\<close>

fun add_entries :: "filesystem \<Rightarrow> path list \<Rightarrow> tnode \<Rightarrow> exn option \<times> tnode" where
  "add_entries fsys [] n = (None, n)"
| "add_entries fsys (entry # rest) n =
     (case add_entry fsys entry n of
        (None, n') \<Rightarrow> add_entries fsys rest n'
      | (Some (PermissionError m), n') \<Rightarrow> add_entries fsys rest n'
      | (Some e, n') \<Rightarrow> (Some e, n'))"

text \<open>The body of the outer \<^verbatim>\<open>try\<close> (lines 88 to 98).\<close>

definition load_body :: "(pystr \<Rightarrow> pystr) \<Rightarrow> filesystem \<Rightarrow> path \<Rightarrow> tnode \<Rightarrow> exn option \<times> tnode" where
  "load_body lw fsys p n =
     (case sorted_entries lw fsys p of
        Inl e \<Rightarrow> (Some e, n)
      | Inr entries \<Rightarrow> add_entries fsys entries n)"

text \<open>
  \<^verbatim>\<open>load_children(node, path)\<close> on the node itself: the exception that escapes the
  call, if any, and the node afterwards. The check of line 84 stands outside the
  \<^verbatim>\<open>try\<close>, so what \<^verbatim>\<open>path.is_dir()\<close> raises escapes, after the children were removed.
\<close>

definition load_node :: "(pystr \<Rightarrow> pystr) \<Rightarrow> filesystem \<Rightarrow> path option \<Rightarrow> tnode \<Rightarrow> exn option \<times> tnode" where
  "load_node lw fsys path n =
     (let n1 = remove_children n in
      case path of
        None \<Rightarrow> (None, n1)
      | Some p \<Rightarrow>
          (case is_dir fsys p of
             Inl e \<Rightarrow> (Some e, n1)
           | Inr False \<Rightarrow> (None, n1)
           | Inr True \<Rightarrow>
               (case load_body lw fsys p n1 of
                  (None, n2) \<Rightarrow> (None, n2)
                | (Some (PermissionError m), n2) \<Rightarrow>
                    (None, add_child (new_node NoPermission None False) n2)
                | (Some e, n2) \<Rightarrow>
                    (None,
                     add_child (new_node (LoadError (take 20 (str_exn e))) None False) n2))))"

subsection \<open>The application state\<close>

text \<open>
  What \<^verbatim>\<open>open_file\<close> starts: \<^verbatim>\<open>os.startfile(path)\<close>, or \<^verbatim>\<open>subprocess.Popen\<close> with
  its argument list.
\<close>

datatype launch = Startfile path | Popen "pystr list"

text \<open>
  The host: \<^verbatim>\<open>sys.platform\<close>, the working directory, what \<^verbatim>\<open>Path.resolve\<close> gives for
  the paths it changes or fails on (any other path is absolute already and resolves to
  itself), and the launches that raise, each with its exception.
\<close>

record host =
  platform :: pystr
  cwd :: path
  resolved :: "(path \<times> (exn + path)) list"
  launch_error :: "(launch \<times> exn) list"

definition resolve :: "host \<Rightarrow> path \<Rightarrow> exn + path" where
  "resolve h p = (case map_of (resolved h) p of None \<Rightarrow> Inr p | Some r \<Rightarrow> r)"

definition launch :: "host \<Rightarrow> launch \<Rightarrow> exn + launch list" where
  "launch h l = (case map_of (launch_error h) l of Some e \<Rightarrow> Inl e | None \<Rightarrow> Inr [l])"

text \<open>
  What the program tells the user with \<^verbatim>\<open>notify\<close>, one constructor for each call
  in the source, in the order of the source (lines 118, 123, 128, 146, 154, 156, 159,
  185, 190, 199, 218, 221, 223, 225); the argument is the text interpolated into the
  message. Title and timeout of a notice are fixed by the call and left out.
\<close>

datatype notice =
    RefreshedDirectory
  | RefreshedParent
  | RefreshedFilesystem
  | NothingSelectedToOpen
  | Opened pystr
  | OpenFailed pystr
  | SelectFileFirst
  | NothingSelectedToDelete
  | InvalidSelection
  | DeleteCancelled
  | Deleted pystr
  | DeleteNoPermission
  | DeleteNotFound
  | DeleteFailed pystr

datatype fs_call = Unlink path | Rmtree path

datatype printed_line = OpenErrorLine pystr | DeleteErrorLine pystr

text \<open>
  The state of the running application. A node is addressed by its position, the list
  of child indices from the root of the tree; \<open>cursor\<close> is the position of the node
  under the cursor; a position that names no node stands for no node.
  \<open>screens\<close> holds the paths of the confirmation dialogs pushed,
  \<open>fs_calls\<close> the removing calls issued to the file system, \<open>launches\<close> the handlers
  started, \<open>printed\<close> what was written to standard output.
\<close>

record app =
  files :: filesystem
  host :: host
  file_tree :: tnode
  cursor :: "nat list option"
  notifications :: "notice list"
  screens :: "path list"
  fs_calls :: "fs_call list"
  launches :: "launch list"
  printed :: "printed_line list"

text \<open>A handler either returns or lets an exception escape, in the state it has reached.\<close>

datatype outcome = Returned app | Raised exn app

fun state_of :: "outcome \<Rightarrow> app" where
  "state_of (Returned s) = s"
| "state_of (Raised e s) = s"

fun node_at :: "tnode \<Rightarrow> nat list \<Rightarrow> tnode option" where
  "node_at t [] = Some t"
| "node_at t (i # pos) =
     (if i < length (children t) then node_at (children t ! i) pos else None)"

fun update_at :: "nat list \<Rightarrow> (tnode \<Rightarrow> tnode) \<Rightarrow> tnode \<Rightarrow> tnode" where
  "update_at [] f t = f t"
| "update_at (i # pos) f t =
     (if i < length (children t)
      then set_children ((children t)[i := update_at pos f (children t ! i)]) t
      else t)"

text \<open>
  \<^verbatim>\<open>self.file_tree.cursor_node\<close> and \<^verbatim>\<open>node.parent\<close>: the node with its position, or
  \<open>None\<close>. The root of the tree has no parent.
\<close>

definition cursor_node :: "app \<Rightarrow> (nat list \<times> tnode) option" where
  "cursor_node s =
     (case cursor s of
        None \<Rightarrow> None
      | Some pos \<Rightarrow>
          (case node_at (file_tree s) pos of None \<Rightarrow> None | Some n \<Rightarrow> Some (pos, n)))"

definition parent_of :: "app \<Rightarrow> nat list \<Rightarrow> (nat list \<times> tnode) option" where
  "parent_of s pos =
     (if pos = [] then None
      else (case node_at (file_tree s) (butlast pos) of
              None \<Rightarrow> None
            | Some n \<Rightarrow> Some (butlast pos, n)))"

definition notify :: "notice \<Rightarrow> app \<Rightarrow> app" where
  "notify m s = s\<lparr>notifications := notifications s @ [m]\<rparr>"

definition print_line :: "printed_line \<Rightarrow> app \<Rightarrow> app" where
  "print_line l s = s\<lparr>printed := printed s @ [l]\<rparr>"

definition expand_at :: "nat list \<Rightarrow> app \<Rightarrow> app" where
  "expand_at pos s = s\<lparr>file_tree := update_at pos expand (file_tree s)\<rparr>"

text \<open>\<^verbatim>\<open>self.load_children(node, path)\<close> for the node at a position of the tree.\<close>

definition load_children :: "(pystr \<Rightarrow> pystr) \<Rightarrow> nat list \<Rightarrow> path option \<Rightarrow> app \<Rightarrow> outcome" where
  "load_children lw pos path s =
     (case node_at (file_tree s) pos of
        None \<Rightarrow> Returned s
      | Some n \<Rightarrow>
          (case load_node lw (files s) path n of
             (r, n') \<Rightarrow>
               (let s' = s\<lparr>file_tree := update_at pos (\<lambda>_. n') (file_tree s)\<rparr>
                in case r of None \<Rightarrow> Returned s' | Some e \<Rightarrow> Raised e s')))"

subsection \<open>Start-up: \<^verbatim>\<open>get_root_paths\<close> and \<^verbatim>\<open>on_mount\<close> (lines 57 to 79)\<close>

text \<open>
  \<^verbatim>\<open>str(path)\<close>: the anchor, then the components joined by the separator of the
  path's flavour.
\<close>

definition path_str :: "path \<Rightarrow> pystr" where
  "path_str p =
     anchor p @
     (case parts p of
        [] \<Rightarrow> []
      | c # cs \<Rightarrow> c @ concat (map (\<lambda>d. (if anchor p = str ''/'' then str ''/'' else [92]) @ d) cs))"

text \<open>
  \<^verbatim>\<open>get_root_paths\<close>: when the anchor of the working directory ends with a colon and
  a backslash, the drives \<^verbatim>\<open>A\<close> to \<^verbatim>\<open>Z\<close> that exist, in this order; the anchor alone
  otherwise. \<^verbatim>\<open>exists\<close> may raise, and then the whole call does.
\<close>

definition drive_suffix :: pystr where
  "drive_suffix = [58, 92]"

definition endswith :: "pystr \<Rightarrow> pystr \<Rightarrow> bool" where
  "endswith s suffix \<longleftrightarrow>
     length suffix \<le> length s \<and> drop (length s - length suffix) s = suffix"

fun existing_drives :: "filesystem \<Rightarrow> pystr \<Rightarrow> exn + path list" where
  "existing_drives fsys [] = Inr []"
| "existing_drives fsys (drive # rest) =
     (case path_exists fsys (Path (drive # drive_suffix) []) of
        Inl e \<Rightarrow> Inl e
      | Inr b \<Rightarrow>
          (case existing_drives fsys rest of
             Inl e \<Rightarrow> Inl e
           | Inr ps \<Rightarrow> Inr (if b then Path (drive # drive_suffix) [] # ps else ps)))"

definition get_root_paths :: "filesystem \<Rightarrow> host \<Rightarrow> exn + path list" where
  "get_root_paths fsys h =
     (if endswith (anchor (cwd h)) drive_suffix
      then existing_drives fsys (str ''ABCDEFGHIJKLMNOPQRSTUVWXYZ'')
      else Inr [Path (anchor (cwd h)) []])"

text \<open>
  The tree as \<^verbatim>\<open>compose\<close> creates it, and the loop of lines 61 to 64: each root path
  gets a node below the root of the tree, with the attribute set, and is loaded at once.
\<close>

definition initial_tree :: tnode where
  "initial_tree = TreeNode TreeTitle None True False None []"

fun mount_roots :: "(pystr \<Rightarrow> pystr) \<Rightarrow> path list \<Rightarrow> app \<Rightarrow> outcome" where
  "mount_roots lw [] s = Returned s"
| "mount_roots lw (root # roots) s =
     (let i = length (children (file_tree s));
          node = set_data_is_dir True (new_node (Folder (path_str root)) (Some root) True);
          s1 = s\<lparr>file_tree := add_child node (file_tree s)\<rparr>
      in case load_children lw [i] (Some root) s1 of
           Raised e s' \<Rightarrow> Raised e s'
         | Returned s' \<Rightarrow> mount_roots lw roots s')"

text \<open>
  \<^verbatim>\<open>on_mount\<close> starts from the tree that \<^verbatim>\<open>compose\<close> has created, which holds the root
  only.
\<close>

definition on_mount :: "(pystr \<Rightarrow> pystr) \<Rightarrow> app \<Rightarrow> outcome" where
  "on_mount lw s =
     (let s0 = s\<lparr>file_tree := initial_tree\<rparr>
      in case get_root_paths (files s0) (host s0) of
           Inl e \<Rightarrow> Raised e s0
         | Inr roots \<Rightarrow> mount_roots lw roots s0)"

subsection \<open>Expanding and refreshing (lines 104 to 138)\<close>

text \<open>
  The test of lines 107, 115 and 134: the node has the attribute \<open>data_is_dir\<close>, the
  attribute is true, and \<open>data\<close> is not \<^verbatim>\<open>None\<close>.
\<close>

definition is_directory_node :: "tnode \<Rightarrow> bool" where
  "is_directory_node n \<longleftrightarrow> data_is_dir n = Some True \<and> data n \<noteq> None"

definition on_tree_node_expanded :: "(pystr \<Rightarrow> pystr) \<Rightarrow> nat list \<Rightarrow> app \<Rightarrow> outcome" where
  "on_tree_node_expanded lw pos s =
     (case node_at (file_tree s) pos of
        None \<Rightarrow> Returned s
      | Some node \<Rightarrow>
          if is_directory_node node then load_children lw pos (data node) s else Returned s)"

text \<open>Lines 130 to 138: a double click on a directory node toggles its expansion flag.\<close>

definition on_tree_node_double_clicked :: "nat list \<Rightarrow> app \<Rightarrow> outcome" where
  "on_tree_node_double_clicked pos s =
     (case node_at (file_tree s) pos of
        None \<Rightarrow> Returned s
      | Some node \<Rightarrow>
          if is_directory_node node then
            (if is_expanded node
             then Returned (s\<lparr>file_tree := update_at pos collapse (file_tree s)\<rparr>)
             else Returned (expand_at pos s))
          else Returned s)"

text \<open>The loop of lines 125 to 127 over the indices of the root's children.\<close>

fun refresh_roots :: "(pystr \<Rightarrow> pystr) \<Rightarrow> nat list \<Rightarrow> app \<Rightarrow> outcome" where
  "refresh_roots lw [] s = Returned s"
| "refresh_roots lw (i # rest) s =
     (case node_at (file_tree s) [i] of
        None \<Rightarrow> refresh_roots lw rest s
      | Some root_node \<Rightarrow>
          if data_is_dir root_node = Some True then
            (case load_children lw [i] (data root_node) s of
               Raised e s' \<Rightarrow> Raised e s'
             | Returned s' \<Rightarrow> refresh_roots lw rest s')
          else refresh_roots lw rest s)"

text \<open>
  \<^verbatim>\<open>action_refresh\<close> (lines 110 to 128). With the cursor on a node that is neither a
  directory node nor the child of a node with the attribute, nothing happens.
\<close>

definition action_refresh :: "(pystr \<Rightarrow> pystr) \<Rightarrow> app \<Rightarrow> outcome" where
  "action_refresh lw s =
     (case cursor_node s of
        Some (pos, selected_node) \<Rightarrow>
          if is_directory_node selected_node then
            (case load_children lw pos (data selected_node) s of
               Raised e s' \<Rightarrow> Raised e s'
             | Returned s' \<Rightarrow> Returned (notify RefreshedDirectory (expand_at pos s')))
          else
            (case parent_of s pos of
               None \<Rightarrow> Returned s
             | Some (ppos, parent_node) \<Rightarrow>
                 if data_is_dir parent_node \<noteq> None then
                   (case load_children lw ppos (data parent_node) s of
                      Raised e s' \<Rightarrow> Raised e s'
                    | Returned s' \<Rightarrow> Returned (notify RefreshedParent (expand_at ppos s')))
                 else Returned s)
      | None \<Rightarrow>
          (case refresh_roots lw [0..<length (children (file_tree s))] s of
             Raised e s' \<Rightarrow> Raised e s'
           | Returned s' \<Rightarrow> Returned (notify RefreshedFilesystem s')))"

subsection \<open>Opening a file (lines 140 to 176)\<close>

text \<open>
  The body of the \<^verbatim>\<open>try\<close> of \<^verbatim>\<open>open_file\<close>: the launches made, or the exception
  raised. On a platform other than the three named, nothing is launched.
\<close>

definition open_body :: "host \<Rightarrow> path \<Rightarrow> exn + launch list" where
  "open_body h file_path =
     (case resolve h file_path of
        Inl e \<Rightarrow> Inl e
      | Inr fp \<Rightarrow>
          if platform h = (str ''win32'') then launch h (Startfile fp)
          else if platform h = (str ''linux'') then launch h (Popen [(str ''xdg-open''), path_str fp])
          else if platform h = (str ''darwin'') then launch h (Popen [(str ''open''), path_str fp])
          else Inr [])"

definition open_file :: "path \<Rightarrow> app \<Rightarrow> bool \<times> app" where
  "open_file file_path s =
     (case open_body (host s) file_path of
        Inr ls \<Rightarrow> (True, s\<lparr>launches := launches s @ ls\<rparr>)
      | Inl e \<Rightarrow> (False, print_line (OpenErrorLine (str_exn e)) s))"

definition action_open_selected :: "app \<Rightarrow> outcome" where
  "action_open_selected s =
     (case cursor_node s of
        None \<Rightarrow> Returned (notify NothingSelectedToOpen s)
      | Some (pos, selected_node) \<Rightarrow>
          (case data selected_node of
             None \<Rightarrow> Returned (notify SelectFileFirst s)
           | Some p \<Rightarrow>
               (case is_file (files s) p of
                  Inl e \<Rightarrow> Raised e s
                | Inr False \<Rightarrow> Returned (notify SelectFileFirst s)
                | Inr True \<Rightarrow>
                    (case open_file p s of
                       (True, s') \<Rightarrow> Returned (notify (Opened (name p)) s')
                     | (False, s') \<Rightarrow> Returned (notify (OpenFailed (name p)) s')))))"

subsection \<open>Deleting (lines 179 to 226)\<close>

text \<open>
  \<^verbatim>\<open>action_delete_selected\<close> (lines 179 to 194): with a node under the cursor whose
  path exists, the confirmation dialog for that path is pushed; its answer is delivered
  to \<^verbatim>\<open>handle_delete_confirm\<close>.
\<close>

definition action_delete_selected :: "app \<Rightarrow> outcome" where
  "action_delete_selected s =
     (case cursor_node s of
        None \<Rightarrow> Returned (notify NothingSelectedToDelete s)
      | Some (pos, selected_node) \<Rightarrow>
          (case data selected_node of
             None \<Rightarrow> Returned (notify InvalidSelection s)
           | Some p \<Rightarrow>
               (case path_exists (files s) p of
                  Inl e \<Rightarrow> Raised e s
                | Inr False \<Rightarrow> Returned (notify InvalidSelection s)
                | Inr True \<Rightarrow> Returned (s\<lparr>screens := screens s @ [p]\<rparr>))))"

text \<open>The messages of the two attribute errors on \<^verbatim>\<open>None\<close>.\<close>

definition none_has_no_data :: pystr where
  "none_has_no_data =
     [39] @ (str ''NoneType'') @ [39] @ (str '' object has no attribute '') @
     [39] @ (str ''data'') @ [39]"

definition none_has_no_is_file :: pystr where
  "none_has_no_is_file =
     [39] @ (str ''NoneType'') @ [39] @ (str '' object has no attribute '') @
     [39] @ (str ''is_file'') @ [39]"

text \<open>
  Lines 213 to 218, reached when the removal raised nothing: the parent of the
  selected node is reloaded and expanded, and the deletion is announced.
\<close>

definition after_delete :: "(pystr \<Rightarrow> pystr) \<Rightarrow> nat list \<Rightarrow> path \<Rightarrow> app \<Rightarrow> outcome" where
  "after_delete lw pos path_to_delete s =
     (case parent_of s pos of
        None \<Rightarrow> Returned (notify (Deleted (name path_to_delete)) s)
      | Some (ppos, parent_node) \<Rightarrow>
          if data_is_dir parent_node \<noteq> None then
            (case load_children lw ppos (data parent_node) s of
               Raised e s' \<Rightarrow> Raised e s'
             | Returned s' \<Rightarrow>
                 Returned (notify (Deleted (name path_to_delete)) (expand_at ppos s')))
          else Returned (notify (Deleted (name path_to_delete)) s))"

text \<open>
  The body of the \<^verbatim>\<open>try\<close> of \<^verbatim>\<open>handle_delete_confirm\<close> (lines 206 to 218). A path
  that is neither a file nor a directory is removed by neither branch, and control
  still reaches line 213.
\<close>

definition delete_body :: "(pystr \<Rightarrow> pystr) \<Rightarrow> nat list \<Rightarrow> tnode \<Rightarrow> app \<Rightarrow> outcome" where
  "delete_body lw pos selected_node s =
     (case data selected_node of
        None \<Rightarrow> Raised (OtherException none_has_no_is_file) s
      | Some p \<Rightarrow>
          (case is_file (files s) p of
             Inl e \<Rightarrow> Raised e s
           | Inr True \<Rightarrow>
               (case unlink (files s) p of
                  Inl e \<Rightarrow> Raised e (s\<lparr>fs_calls := fs_calls s @ [Unlink p]\<rparr>)
                | Inr fs' \<Rightarrow>
                    after_delete lw pos p (s\<lparr>files := fs', fs_calls := fs_calls s @ [Unlink p]\<rparr>))
           | Inr False \<Rightarrow>
               (case is_dir (files s) p of
                  Inl e \<Rightarrow> Raised e s
                | Inr True \<Rightarrow>
                    (case rmtree (files s) p of
                       (Some e, fs') \<Rightarrow>
                         Raised e (s\<lparr>files := fs', fs_calls := fs_calls s @ [Rmtree p]\<rparr>)
                     | (None, fs') \<Rightarrow>
                         after_delete lw pos p
                           (s\<lparr>files := fs', fs_calls := fs_calls s @ [Rmtree p]\<rparr>))
                | Inr False \<Rightarrow> after_delete lw pos p s)))"

text \<open>
  \<^verbatim>\<open>handle_delete_confirm(confirmed)\<close>. Lines 202 and 203 read the node under the
  cursor before the \<^verbatim>\<open>try\<close>: with no node there, the \<^verbatim>\<open>AttributeError\<close> escapes.
\<close>

definition handle_delete_confirm :: "(pystr \<Rightarrow> pystr) \<Rightarrow> bool \<Rightarrow> app \<Rightarrow> outcome" where
  "handle_delete_confirm lw confirmed s =
     (if \<not> confirmed then Returned (notify DeleteCancelled s)
      else
        (case cursor_node s of
           None \<Rightarrow> Raised (OtherException none_has_no_data) s
         | Some (pos, selected_node) \<Rightarrow>
             (case delete_body lw pos selected_node s of
                Returned s' \<Rightarrow> Returned s'
              | Raised (PermissionError m) s' \<Rightarrow> Returned (notify DeleteNoPermission s')
              | Raised (FileNotFoundError m) s' \<Rightarrow> Returned (notify DeleteNotFound s')
              | Raised (OtherException m) s' \<Rightarrow>
                  Returned
                    (print_line (DeleteErrorLine m) (notify (DeleteFailed (take 30 m)) s')))))"

section \<open>Notions for the properties\<close>

subsection \<open>What a load leaves in a node\<close>

text \<open>
  The name and the sort key of a node as the loader creates it: a directory node (the
  attribute is set) sorts as \<open>False\<close>, any other node as \<open>True\<close>, then by the lower-cased
  name of its path.
\<close>

definition node_name :: "tnode \<Rightarrow> pystr" where
  "node_name c = (case data c of None \<Rightarrow> [] | Some p \<Rightarrow> name p)"

definition child_key :: "(pystr \<Rightarrow> pystr) \<Rightarrow> tnode \<Rightarrow> bool \<times> pystr" where
  "child_key lw c = (data_is_dir c \<noteq> Some True, lw (node_name c))"

text \<open>The placeholder child of lines 100 and 102, by the exception caught.\<close>

definition placeholder :: "exn \<Rightarrow> tnode" where
  "placeholder e =
     (case e of
        PermissionError m \<Rightarrow> new_node NoPermission None False
      | _ \<Rightarrow> new_node (LoadError (take 20 (str_exn e))) None False)"

text \<open>The child of lines 92 to 96 for an entry whose type check returns.\<close>

definition entry_node :: "filesystem \<Rightarrow> path \<Rightarrow> tnode" where
  "entry_node fsys x =
     (if is_dir fsys x = Inr True
      then set_data_is_dir True (new_node (Folder (name x)) (Some x) True)
      else new_node (Plain (name x)) (Some x) False)"

text \<open>
  The children a load leaves and the exception it lets escape, as functions of the
  file system and the path alone; \<open>load_node_eq\<close> below proves that this is what
  \<open>load_node\<close> computes.
\<close>

definition loaded_children :: "(pystr \<Rightarrow> pystr) \<Rightarrow> filesystem \<Rightarrow> path option \<Rightarrow> tnode list" where
  "loaded_children lw fsys path =
     (case path of
        None \<Rightarrow> []
      | Some p \<Rightarrow>
          (case is_dir fsys p of
             Inr True \<Rightarrow>
               (case sorted_entries lw fsys p of
                  Inl e \<Rightarrow> [placeholder e]
                | Inr es \<Rightarrow> map (entry_node fsys) es)
           | _ \<Rightarrow> []))"

definition load_raises :: "filesystem \<Rightarrow> path option \<Rightarrow> exn option" where
  "load_raises fsys path =
     (case path of
        None \<Rightarrow> None
      | Some p \<Rightarrow> (case is_dir fsys p of Inl e \<Rightarrow> Some e | Inr b \<Rightarrow> None))"

definition reload_at :: "(pystr \<Rightarrow> pystr) \<Rightarrow> nat list \<Rightarrow> path option \<Rightarrow> app \<Rightarrow> app" where
  "reload_at lw pos path s =
     s\<lparr>file_tree := update_at pos (set_children (loaded_children lw (files s) path)) (file_tree s)\<rparr>"

subsection \<open>The shape of the tree\<close>

text \<open>
  The program attaches \<open>data_is_dir\<close> only to nodes it creates for directories, with the
  value \<open>True\<close>, and it loads children only into such nodes. So below the root of the
  tree, a node that carries the attribute or has children is a directory node
  (\<open>node_ok\<close>); the root carries no attribute and its children, the anchors, are
  directory nodes (\<open>wf_tree\<close>).
\<close>

fun node_ok :: "tnode \<Rightarrow> bool" where
  "node_ok (TreeNode l d a e t cs) \<longleftrightarrow>
     (t \<noteq> None \<or> cs \<noteq> [] \<longrightarrow> t = Some True \<and> d \<noteq> None) \<and> (\<forall>c \<in> set cs. node_ok c)"

definition wf_tree :: "tnode \<Rightarrow> bool" where
  "wf_tree t \<longleftrightarrow>
     data_is_dir t = None \<and> (\<forall>c \<in> set (children t). is_directory_node c \<and> node_ok c)"

subsection \<open>What the widget shows\<close>


section \<open>Example file systems and states\<close>

text \<open>
  The concrete inputs of the examples below. \<open>plain k\<close> is an object of kind \<open>k\<close> on
  which no system call fails. Both \<open>upper_first\<close> and \<open>lower_first\<close> hold the directory
  \<^verbatim>\<open>/d\<close> with the directories \<^verbatim>\<open>bravo\<close> and \<^verbatim>\<open>charlie\<close> and the files \<^verbatim>\<open>Alpha.txt\<close> and
  \<^verbatim>\<open>alpha.txt\<close>; they differ in the order in which the system lists the entries.
\<close>

definition plain :: "fkind \<Rightarrow> fobj" where
  "plain k = \<lparr>kind = k, stat_error = None, list_error = None, remove_error = None\<rparr>"

definition root_dir :: path where
  "root_dir = Path (str ''/'') []"

definition dir_d :: path where
  "dir_d = Path (str ''/'') [(str ''d'')]"

definition upper_first :: filesystem where
  "upper_first =
     [(root_dir, plain Directory), (dir_d, plain Directory),
      (joinpath dir_d (str ''bravo''), plain Directory),
      (joinpath dir_d (str ''Alpha.txt''), plain RegularFile),
      (joinpath dir_d (str ''charlie''), plain Directory),
      (joinpath dir_d (str ''alpha.txt''), plain RegularFile)]"

definition lower_first :: filesystem where
  "lower_first =
     [(root_dir, plain Directory), (dir_d, plain Directory),
      (joinpath dir_d (str ''alpha.txt''), plain RegularFile),
      (joinpath dir_d (str ''Alpha.txt''), plain RegularFile),
      (joinpath dir_d (str ''bravo''), plain Directory),
      (joinpath dir_d (str ''charlie''), plain Directory)]"

text \<open>
  \<^verbatim>\<open>/d\<close> cannot be listed: for want of permission in \<open>locked\<close>, for an input/output
  error in \<open>broken\<close>.
\<close>

definition permission_denied :: pystr where
  "permission_denied = (str ''[Errno 13] Permission denied'')"

definition io_error :: pystr where
  "io_error = (str ''[Errno 5] Input/output error'')"



text \<open>
  A Linux host whose working directory is \<^verbatim>\<open>/\<close>; the application before
  \<^verbatim>\<open>on_mount\<close>, and after it.
\<close>

definition linux_host :: host where
  "linux_host = \<lparr>platform = (str ''linux''), cwd = root_dir, resolved = [], launch_error = []\<rparr>"

definition start_app :: "filesystem \<Rightarrow> app" where
  "start_app fsys =
     \<lparr>files = fsys, host = linux_host, file_tree = initial_tree, cursor = None,
      notifications = [], screens = [], fs_calls = [], launches = [], printed = []\<rparr>"

definition mounted :: "filesystem \<Rightarrow> app" where
  "mounted fsys = state_of (on_mount ascii_lower (start_app fsys))"

text \<open>
  \<open>opened_d fsys\<close> is the application on \<open>fsys\<close> after start-up and after the user has
  expanded the anchor and the directory \<^verbatim>\<open>/d\<close> below it: the node of \<^verbatim>\<open>/d\<close> is at
  position \<open>[0, 0]\<close>. The widget library moves the cursor; \<open>with_cursor\<close> is its move.
\<close>

definition with_cursor :: "nat list \<Rightarrow> app \<Rightarrow> app" where
  "with_cursor pos s = s\<lparr>cursor := Some pos\<rparr>"

definition opened_d :: "filesystem \<Rightarrow> app" where
  "opened_d fsys =
     expand_at [0, 0]
       (state_of (on_tree_node_expanded ascii_lower [0, 0] (expand_at [0] (mounted fsys))))"

text \<open>
  \<open>upper_first\<close> after another program has removed \<^verbatim>\<open>/d/Alpha.txt\<close>, and \<open>upper_first\<close>
  with \<^verbatim>\<open>/d/Alpha.txt\<close> in a state where removing it is not permitted.
\<close>

definition alpha_gone :: filesystem where
  "alpha_gone =
     [(root_dir, plain Directory), (dir_d, plain Directory),
      (joinpath dir_d (str ''bravo''), plain Directory),
      (joinpath dir_d (str ''charlie''), plain Directory),
      (joinpath dir_d (str ''alpha.txt''), plain RegularFile)]"


text \<open>
  \<open>upper_first\<close> after the program has unlinked \<^verbatim>\<open>/d/alpha.txt\<close>, and \<open>upper_first\<close>
  after the search permission of \<^verbatim>\<open>/d\<close> has been taken away (\<^verbatim>\<open>chmod a-x /d\<close>):
  \<^verbatim>\<open>/d\<close> can still be listed, and \<^verbatim>\<open>stat\<close> fails with a permission error on each
  of its entries.
\<close>

definition lower_alpha_gone :: filesystem where
  "lower_alpha_gone =
     [(root_dir, plain Directory), (dir_d, plain Directory),
      (joinpath dir_d (str ''bravo''), plain Directory),
      (joinpath dir_d (str ''Alpha.txt''), plain RegularFile),
      (joinpath dir_d (str ''charlie''), plain Directory)]"

definition no_stat :: "fkind \<Rightarrow> fobj" where
  "no_stat k = (plain k)\<lparr>stat_error := Some (PermissionError permission_denied)\<rparr>"

definition d_unsearchable :: filesystem where
  "d_unsearchable =
     [(root_dir, plain Directory), (dir_d, plain Directory),
      (joinpath dir_d (str ''bravo''), no_stat Directory),
      (joinpath dir_d (str ''Alpha.txt''), no_stat RegularFile),
      (joinpath dir_d (str ''charlie''), no_stat Directory),
      (joinpath dir_d (str ''alpha.txt''), no_stat RegularFile)]"

text \<open>
  A host on which the relative path \<^verbatim>\<open>notes.txt\<close> resolves to \<^verbatim>\<open>/d/notes.txt\<close>, and
  the same host without the program \<^verbatim>\<open>xdg-open\<close>.
\<close>

definition notes_relative :: path where
  "notes_relative = Path [] [(str ''notes.txt'')]"

definition in_d_host :: host where
  "in_d_host =
     linux_host\<lparr>cwd := dir_d, resolved := [(notes_relative, Inr (joinpath dir_d (str ''notes.txt'')))]\<rparr>"

definition no_xdg_open :: pystr where
  "no_xdg_open = (str ''[Errno 2] No such file or directory: xdg-open'')"

definition no_opener_host :: host where
  "no_opener_host =
     in_d_host\<lparr>launch_error :=
       [(Popen [(str ''xdg-open''), (str ''/d/notes.txt'')], FileNotFoundError no_xdg_open)]\<rparr>"

section \<open>Properties\<close>

subsection \<open>The loader in closed form\<close>

lemma is_dir_excludes_is_file: "is_dir fsys x = Inr True \<Longrightarrow> is_file fsys x = Inr False"
  by (auto simp: is_dir_def is_file_def split: sum.splits)

lemma children_set_children [simp]: "children (set_children cs n) = cs"
  by (cases n) simp

lemma set_children_twice [simp]: "set_children cs (set_children ds n) = set_children cs n"
  by (cases n) simp

lemma set_children_fields [simp]:
  "label (set_children cs n) = label n" "data (set_children cs n) = data n"
  "allow_expand (set_children cs n) = allow_expand n"
  "is_expanded (set_children cs n) = is_expanded n"
  "data_is_dir (set_children cs n) = data_is_dir n"
  by (cases n; simp)+

lemma set_children_children [simp]: "set_children (children n) n = n"
  by (cases n) simp

lemma add_entry_returns:
  "is_dir fsys x = Inr b \<Longrightarrow>
   add_entry fsys x n = (None, set_children (children n @ [entry_node fsys x]) n)"
  by (cases b) (simp_all add: add_entry_def entry_node_def add_child_def is_dir_excludes_is_file)

lemma add_entries_returns:
  "\<forall>x \<in> set es. \<exists>b. is_dir fsys x = Inr b \<Longrightarrow>
   add_entries fsys es n = (None, set_children (children n @ map (entry_node fsys) es) n)"
proof (induction es arbitrary: n)
  case Nil
  show ?case by simp
next
  case (Cons x es)
  from Cons.prems obtain b where b: "is_dir fsys x = Inr b" by auto
  from Cons.prems have rest: "\<forall>y \<in> set es. \<exists>b. is_dir fsys y = Inr b" by simp
  show ?case
    by (simp add: add_entry_returns [OF b] Cons.IH [OF rest])
qed

lemma try_map_Inr: "try_map f xs = Inr ys \<Longrightarrow> map f xs = map Inr ys"
  by (induction xs arbitrary: ys) (auto split: sum.splits)

lemma entry_key_Inr:
  "entry_key lw fsys x = Inr k \<Longrightarrow>
   (\<exists>b. is_dir fsys x = Inr b) \<and> k = child_key lw (entry_node fsys x)"
  by (auto simp: entry_key_def child_key_def entry_node_def node_name_def new_node_def
      split: sum.splits)

lemma zip_keys:
  assumes "map (entry_key lw fsys) es = map Inr ks"
  shows "\<forall>(k, x) \<in> set (zip ks es). entry_key lw fsys x = Inr k"
proof -
  have len: "length ks = length es" using assms by (metis length_map)
  show ?thesis
  proof (clarify)
    fix k x assume "(k, x) \<in> set (zip ks es)"
    then obtain i where i: "i < length es" "ks ! i = k" "es ! i = x"
      using len by (auto simp: set_zip)
    from assms i(1) len have "map (entry_key lw fsys) es ! i = map Inr ks ! i" by simp
    with i len show "entry_key lw fsys x = Inr k" by simp
  qed
qed

lemma sorted_entries_Inr:
  assumes "sorted_entries lw fsys p = Inr es"
  shows "(\<forall>x \<in> set es. \<exists>b. is_dir fsys x = Inr b) \<and>
         sorted (map (\<lambda>x. child_key lw (entry_node fsys x)) es)"
proof -
  from assms obtain ls ks where ls: "iterdir fsys p = Inr ls"
    and ks: "try_map (entry_key lw fsys) ls = Inr ks"
    and es: "es = map snd (sort_key fst (zip ks ls))"
    by (auto simp: sorted_entries_def split: sum.splits)
  have z: "\<forall>(k, x) \<in> set (zip ks ls). entry_key lw fsys x = Inr k"
    by (rule zip_keys [OF try_map_Inr [OF ks]])
  have mem: "\<forall>(k, x) \<in> set (sort_key fst (zip ks ls)). entry_key lw fsys x = Inr k"
    using z by simp
  have each: "(\<exists>b. is_dir fsys x = Inr b) \<and> child_key lw (entry_node fsys x) = k"
    if "(k, x) \<in> set (sort_key fst (zip ks ls))" for k x
  proof -
    from that mem have "entry_key lw fsys x = Inr k" by blast
    from entry_key_Inr [OF this] show ?thesis by simp
  qed
  have keys: "map (\<lambda>x. child_key lw (entry_node fsys x)) es = map fst (sort_key fst (zip ks ls))"
    unfolding es using each by (simp add: comp_def)
  have "\<forall>x \<in> set es. \<exists>b. is_dir fsys x = Inr b"
    unfolding es using each by (simp add: image_iff) (metis prod.collapse snd_conv)
  moreover have "sorted (map (\<lambda>x. child_key lw (entry_node fsys x)) es)"
    unfolding keys by (rule sorted_sort_key)
  ultimately show ?thesis by simp
qed

lemma load_body_cases:
  "(\<exists>e. sorted_entries lw fsys p = Inl e \<and> load_body lw fsys p n = (Some e, n)) \<or>
   (\<exists>es. sorted_entries lw fsys p = Inr es \<and>
      load_body lw fsys p n = (None, set_children (children n @ map (entry_node fsys) es) n))"
proof (cases "sorted_entries lw fsys p")
  case (Inl e)
  then show ?thesis by (simp add: load_body_def)
next
  case (Inr es)
  from sorted_entries_Inr [OF Inr] have "\<forall>x \<in> set es. \<exists>b. is_dir fsys x = Inr b" by simp
  from add_entries_returns [OF this] Inr show ?thesis by (simp add: load_body_def)
qed

text \<open>
  The loader in closed form. In this file system a type check that returned for the sort
  key returns again in the loop, so the loop adds one child per sorted entry.
\<close>

lemma load_node_eq:
  "load_node lw fsys path n = (load_raises fsys path, set_children (loaded_children lw fsys path) n)"
proof (cases path)
  case None
  then show ?thesis
    by (simp add: load_node_def load_raises_def loaded_children_def remove_children_def)
next
  case (Some p)
  show ?thesis
  proof (cases "is_dir fsys p")
    case (Inl e)
    with Some show ?thesis
      by (simp add: load_node_def load_raises_def loaded_children_def remove_children_def)
  next
    case (Inr b)
    show ?thesis
    proof (cases b)
      case False
      with Some Inr show ?thesis
        by (simp add: load_node_def load_raises_def loaded_children_def remove_children_def)
    next
      case True
      from load_body_cases [of lw fsys p "remove_children n"] show ?thesis
      proof (elim disjE exE conjE)
        fix e assume "sorted_entries lw fsys p = Inl e"
          and "load_body lw fsys p (remove_children n) = (Some e, remove_children n)"
        with Some Inr True show ?thesis
          by (cases e)
            (simp_all add: load_node_def load_raises_def loaded_children_def
              remove_children_def add_child_def placeholder_def)
      next
        fix es assume "sorted_entries lw fsys p = Inr es"
          and "load_body lw fsys p (remove_children n) =
            (None, set_children (children (remove_children n) @ map (entry_node fsys) es)
               (remove_children n))"
        with Some Inr True show ?thesis
          by (simp add: load_node_def load_raises_def loaded_children_def remove_children_def)
      qed
    qed
  qed
qed

lemma sorted_loaded_children: "sorted (map (child_key lw) (loaded_children lw fsys path))"
  by (auto simp: loaded_children_def comp_def placeholder_def dest: sorted_entries_Inr
      split: option.splits sum.splits bool.splits)

lemma filter_by_key:
  assumes "\<forall>(k', x) \<in> set zs. entry_key lw fsys x = Inr k'"
  shows "filter (\<lambda>x. entry_key lw fsys x = Inr k) (map snd zs) =
         map snd (filter (\<lambda>z. fst z = k) zs)"
  using assms by (induction zs) auto

lemma sorted_entries_stable:
  assumes "sorted_entries lw fsys p = Inr es" and "iterdir fsys p = Inr ls"
  shows "filter (\<lambda>x. entry_key lw fsys x = Inr k) es =
         filter (\<lambda>x. entry_key lw fsys x = Inr k) ls"
proof (cases "try_map (entry_key lw fsys) ls")
  case (Inl e)
  with assms show ?thesis by (simp add: sorted_entries_def)
next
  case (Inr ks)
  with assms have es: "es = map snd (sort_key fst (zip ks ls))"
    by (simp add: sorted_entries_def)
  have z: "\<forall>(k', x) \<in> set (zip ks ls). entry_key lw fsys x = Inr k'"
    by (rule zip_keys [OF try_map_Inr [OF Inr]])
  then have z': "\<forall>(k', x) \<in> set (sort_key fst (zip ks ls)). entry_key lw fsys x = Inr k'"
    by simp
  have len: "length ks = length ls"
    using try_map_Inr [OF Inr] by (metis length_map)
  have "filter (\<lambda>x. entry_key lw fsys x = Inr k) es =
      map snd (filter (\<lambda>z. fst z = k) (sort_key fst (zip ks ls)))"
    unfolding es by (rule filter_by_key [OF z'])
  also have "\<dots> = map snd (filter (\<lambda>z. fst z = k) (zip ks ls))"
    by (simp add: sort_key_stable)
  also have "\<dots> = filter (\<lambda>x. entry_key lw fsys x = Inr k) (map snd (zip ks ls))"
    by (rule filter_by_key [OF z, symmetric])
  also have "map snd (zip ks ls) = ls"
    using len by simp
  finally show ?thesis .
qed

subsection \<open>Positions in the tree\<close>

lemma node_at_update_at:
  "node_at t pos = Some n \<Longrightarrow> node_at (update_at pos f t) pos = Some (f n)"
  by (induction pos arbitrary: t) (auto split: if_splits)

lemma update_at_absent: "node_at t pos = None \<Longrightarrow> update_at pos f t = t"
  by (induction pos arbitrary: t) (auto split: if_splits simp: list_update_same_conv)

lemma update_at_cong:
  "node_at t pos = Some n \<Longrightarrow> f n = g n \<Longrightarrow> update_at pos f t = update_at pos g t"
  by (induction pos arbitrary: t) (auto split: if_splits)

lemma update_at_twice: "update_at pos f (update_at pos g t) = update_at pos (f \<circ> g) t"
  by (induction pos arbitrary: t) auto

lemma load_children_eq:
  assumes "node_at (file_tree s) pos = Some n"
  shows "load_children lw pos path s =
           (case load_raises (files s) path of
              None \<Rightarrow> Returned (reload_at lw pos path s)
            | Some e \<Rightarrow> Raised e (reload_at lw pos path s))"
proof -
  have "update_at pos (\<lambda>_. set_children (loaded_children lw (files s) path) n) (file_tree s) =
        update_at pos (set_children (loaded_children lw (files s) path)) (file_tree s)"
    by (rule update_at_cong [OF assms]) simp
  then show ?thesis
    using assms by (simp add: load_children_def load_node_eq reload_at_def split: option.splits)
qed

lemma load_children_absent:
  "node_at (file_tree s) pos = None \<Longrightarrow> load_children lw pos path s = Returned s"
  by (simp add: load_children_def)

lemma reload_at_twice: "reload_at lw pos path (reload_at lw pos path s) = reload_at lw pos path s"
proof -
  have "set_children (loaded_children lw (files s) path) \<circ> set_children (loaded_children lw (files s) path)
        = set_children (loaded_children lw (files s) path)"
    by (rule ext) simp
  then show ?thesis by (simp add: reload_at_def update_at_twice)
qed

lemma reload_at_fields [simp]:
  "files (reload_at lw pos path s) = files s" "cursor (reload_at lw pos path s) = cursor s"
  "notifications (reload_at lw pos path s) = notifications s"
  "fs_calls (reload_at lw pos path s) = fs_calls s" "screens (reload_at lw pos path s) = screens s"
  by (simp_all add: reload_at_def)

lemma node_at_reload_at:
  "node_at (file_tree s) pos = Some n \<Longrightarrow>
   node_at (file_tree (reload_at lw pos path s)) pos =
     Some (set_children (loaded_children lw (files s) path) n)"
  by (simp add: reload_at_def node_at_update_at)

subsection \<open>Claims about the loader\<close>

text \<open>
  Claim C3, as amended. Whatever the node held before and however the load ends, the
  children it leaves are sorted by \<open>child_key\<close>: every directory node before every other
  node, and inside each group by lower-cased name, the lower-cased names compared as
  Python compares strings; this holds whatever function \<^verbatim>\<open>str.lower\<close> is (\<open>lw\<close>).
  When the listing and the sort return, the children are the sorted entries, and the
  entries of one key (names that differ only in case) stay in the order of the listing:
  the directory of the example loads as bravo, charlie, Alpha.txt, alpha.txt when the
  system lists Alpha.txt before alpha.txt, and as bravo, charlie, alpha.txt, Alpha.txt
  when it lists them the other way round.
\<close>

theorem load_children_order:
  "sorted (map (child_key lw) (children (snd (load_node lw fsys path n))))
   \<and> (is_dir fsys p = Inr True \<and> iterdir fsys p = Inr ls \<and> sorted_entries lw fsys p = Inr es \<longrightarrow>
        map data (children (snd (load_node lw fsys (Some p) n))) = map Some es
        \<and> filter (\<lambda>x. entry_key lw fsys x = Inr k) es =
            filter (\<lambda>x. entry_key lw fsys x = Inr k) ls)
   \<and> map node_name (children (snd (load_node ascii_lower upper_first (Some dir_d) n))) =
       [(str ''bravo''), (str ''charlie''), (str ''Alpha.txt''), (str ''alpha.txt'')]
   \<and> map node_name (children (snd (load_node ascii_lower lower_first (Some dir_d) n))) =
       [(str ''bravo''), (str ''charlie''), (str ''alpha.txt''), (str ''Alpha.txt'')]"
proof (intro conjI impI)
  show "sorted (map (child_key lw) (children (snd (load_node lw fsys path n))))"
    by (simp add: load_node_eq sorted_loaded_children)
  have "map node_name (loaded_children ascii_lower upper_first (Some dir_d)) =
          [(str ''bravo''), (str ''charlie''), (str ''Alpha.txt''), (str ''alpha.txt'')]"
    by code_simp
  then show "map node_name (children (snd (load_node ascii_lower upper_first (Some dir_d) n))) =
          [(str ''bravo''), (str ''charlie''), (str ''Alpha.txt''), (str ''alpha.txt'')]"
    by (simp add: load_node_eq)
  have "map node_name (loaded_children ascii_lower lower_first (Some dir_d)) =
          [(str ''bravo''), (str ''charlie''), (str ''alpha.txt''), (str ''Alpha.txt'')]"
    by code_simp
  then show "map node_name (children (snd (load_node ascii_lower lower_first (Some dir_d) n))) =
          [(str ''bravo''), (str ''charlie''), (str ''alpha.txt''), (str ''Alpha.txt'')]"
    by (simp add: load_node_eq)
next
  assume a: "is_dir fsys p = Inr True \<and> iterdir fsys p = Inr ls \<and> sorted_entries lw fsys p = Inr es"
  then show "map data (children (snd (load_node lw fsys (Some p) n))) = map Some es"
    by (simp add: load_node_eq loaded_children_def comp_def entry_node_def new_node_def)
  from a have "sorted_entries lw fsys p = Inr es" and "iterdir fsys p = Inr ls"
    by simp_all
  then show "filter (\<lambda>x. entry_key lw fsys x = Inr k) es =
            filter (\<lambda>x. entry_key lw fsys x = Inr k) ls"
    by (rule sorted_entries_stable)
qed

theorem load_children_order_witness:
  "iterdir lower_first dir_d =
     Inr [joinpath dir_d (str ''alpha.txt''), joinpath dir_d (str ''Alpha.txt''),
          joinpath dir_d (str ''bravo''), joinpath dir_d (str ''charlie'')]
   \<and> sorted_entries ascii_lower lower_first dir_d =
     Inr [joinpath dir_d (str ''bravo''), joinpath dir_d (str ''charlie''),
          joinpath dir_d (str ''alpha.txt''), joinpath dir_d (str ''Alpha.txt'')]
   \<and> map data (children (snd (load_node ascii_lower lower_first (Some dir_d) initial_tree))) =
     [Some (joinpath dir_d (str ''bravo'')), Some (joinpath dir_d (str ''charlie'')),
      Some (joinpath dir_d (str ''alpha.txt'')), Some (joinpath dir_d (str ''Alpha.txt''))]
   \<and> filter (\<lambda>x. entry_key ascii_lower lower_first x = Inr (True, (str ''alpha.txt'')))
         [joinpath dir_d (str ''bravo''), joinpath dir_d (str ''charlie''),
          joinpath dir_d (str ''alpha.txt''), joinpath dir_d (str ''Alpha.txt'')] =
       filter (\<lambda>x. entry_key ascii_lower lower_first x = Inr (True, (str ''alpha.txt'')))
         [joinpath dir_d (str ''alpha.txt''), joinpath dir_d (str ''Alpha.txt''),
          joinpath dir_d (str ''bravo''), joinpath dir_d (str ''charlie'')]"
proof -
  let ?ls = "[joinpath dir_d (str ''alpha.txt''), joinpath dir_d (str ''Alpha.txt''),
          joinpath dir_d (str ''bravo''), joinpath dir_d (str ''charlie'')]"
  let ?es = "[joinpath dir_d (str ''bravo''), joinpath dir_d (str ''charlie''),
          joinpath dir_d (str ''alpha.txt''), joinpath dir_d (str ''Alpha.txt'')]"
  have d: "is_dir lower_first dir_d = Inr True" by code_simp
  have l: "iterdir lower_first dir_d = Inr ?ls" by code_simp
  have e: "sorted_entries ascii_lower lower_first dir_d = Inr ?es" by code_simp
  from d l e have pre: "is_dir lower_first dir_d = Inr True \<and> iterdir lower_first dir_d = Inr ?ls
      \<and> sorted_entries ascii_lower lower_first dir_d = Inr ?es"
    by (intro conjI)
  from load_children_order
    [of ascii_lower lower_first _ initial_tree dir_d ?ls ?es "(True, (str ''alpha.txt''))",
      THEN conjunct2, THEN conjunct1, THEN mp, OF pre]
  have "map data (children (snd (load_node ascii_lower lower_first (Some dir_d) initial_tree))) = map Some ?es
      \<and> filter (\<lambda>x. entry_key ascii_lower lower_first x = Inr (True, (str ''alpha.txt''))) ?es =
         filter (\<lambda>x. entry_key ascii_lower lower_first x = Inr (True, (str ''alpha.txt''))) ?ls" .
  with l e show ?thesis by simp
qed

text \<open>
  Claim C3 as the specification states it fails: \<open>lower_first\<close> holds exactly the four
  entries of the example, and the load does not give the order the claim names.
\<close>

theorem load_children_order_counterexample:
  "set (map fst lower_first) - {root_dir, dir_d} =
     {joinpath dir_d (str ''bravo''), joinpath dir_d (str ''Alpha.txt''),
      joinpath dir_d (str ''charlie''), joinpath dir_d (str ''alpha.txt'')}
   \<and> load_children ascii_lower [0, 0] (Some dir_d) (mounted lower_first) =
       Returned (mounted lower_first\<lparr>file_tree :=
         update_at [0, 0]
           (set_children
              [entry_node lower_first (joinpath dir_d (str ''bravo'')),
               entry_node lower_first (joinpath dir_d (str ''charlie'')),
               entry_node lower_first (joinpath dir_d (str ''alpha.txt'')),
               entry_node lower_first (joinpath dir_d (str ''Alpha.txt''))])
           (file_tree (mounted lower_first))\<rparr>)
   \<and> map node_name (children (snd (load_node ascii_lower lower_first (Some dir_d)
         (new_node (Folder (str ''d'')) (Some dir_d) True)))) \<noteq>
       [(str ''bravo''), (str ''charlie''), (str ''Alpha.txt''), (str ''alpha.txt'')]"
  by code_simp

text \<open>
  Claim C4. A load first discards the children the node had, so its result does not
  depend on them; loading the node at a position a second time, with the file system
  unchanged, ends as the first load did and leaves the same state, child list included.
\<close>

theorem load_children_idempotent:
  "load_children lw pos path (state_of (load_children lw pos path s)) = load_children lw pos path s
   \<and> load_node lw fsys path n = load_node lw fsys path (remove_children n)
   \<and> children (snd (load_node lw fsys path (snd (load_node lw fsys path n)))) =
       children (snd (load_node lw fsys path n))"
proof (intro conjI)
  show "load_children lw pos path (state_of (load_children lw pos path s)) = load_children lw pos path s"
  proof (cases "node_at (file_tree s) pos")
    case None
    then show ?thesis by (simp add: load_children_absent)
  next
    case (Some n)
    let ?s1 = "reload_at lw pos path s"
    have s1: "state_of (load_children lw pos path s) = ?s1"
      by (simp add: load_children_eq [OF Some] split: option.splits)
    have "node_at (file_tree ?s1) pos = Some (set_children (loaded_children lw (files s) path) n)"
      by (rule node_at_reload_at [OF Some])
    from load_children_eq [OF this, of lw path]
    have "load_children lw pos path ?s1 =
        (case load_raises (files s) path of
           None \<Rightarrow> Returned ?s1
         | Some e \<Rightarrow> Raised e ?s1)"
      by (simp add: reload_at_twice split: option.splits)
    then show ?thesis
      unfolding s1 by (simp add: load_children_eq [OF Some])
  qed
  show "load_node lw fsys path n = load_node lw fsys path (remove_children n)"
    by (simp add: load_node_eq remove_children_def)
  show "children (snd (load_node lw fsys path (snd (load_node lw fsys path n)))) =
       children (snd (load_node lw fsys path n))"
    by (simp add: load_node_eq)
qed



subsection \<open>Claims about the controller\<close>

text \<open>
  Claim C5. When the user cancels, \<^verbatim>\<open>handle_delete_confirm(False)\<close> returns having
  sent one notice and nothing else: the file system and the removing calls issued to it
  are as before, and so are the whole tree (every node, child list, label and expansion
  flag), the cursor and the dialogs.
\<close>

theorem cancel_changes_nothing:
  "handle_delete_confirm lw False s = Returned (s\<lparr>notifications := notifications s @ [DeleteCancelled]\<rparr>)
   \<and> files (state_of (handle_delete_confirm lw False s)) = files s
   \<and> fs_calls (state_of (handle_delete_confirm lw False s)) = fs_calls s
   \<and> file_tree (state_of (handle_delete_confirm lw False s)) = file_tree s
   \<and> cursor (state_of (handle_delete_confirm lw False s)) = cursor s
   \<and> screens (state_of (handle_delete_confirm lw False s)) = screens s"
  by (simp add: handle_delete_confirm_def notify_def)

text \<open>
  Claim C8. \<^verbatim>\<open>open_file\<close> returns a boolean for every path and state. It resolves the
  path first: when the resolution raises, the result is \<open>False\<close>, the error is printed
  and nothing is launched. Otherwise it launches, with the resolved path, what the
  platform names (\<^verbatim>\<open>os.startfile\<close> on win32, \<^verbatim>\<open>xdg-open\<close> on linux, \<^verbatim>\<open>open\<close> on
  darwin): the result is \<open>True\<close> when the launch raises nothing, and \<open>False\<close> with the
  error printed when it raises.
\<close>

theorem open_file_returns_bool:
  "(resolve (host s) p = Inl e \<longrightarrow>
      open_file p s = (False, print_line (OpenErrorLine (str_exn e)) s))
   \<and> (resolve (host s) p = Inr fp \<and>
        l = (if platform (host s) = (str ''win32'') then Startfile fp
             else if platform (host s) = (str ''linux'') then Popen [(str ''xdg-open''), path_str fp]
             else Popen [(str ''open''), path_str fp]) \<and>
        platform (host s) \<in> {(str ''win32''), (str ''linux''), (str ''darwin'')} \<longrightarrow>
      (map_of (launch_error (host s)) l = None \<longrightarrow>
         open_file p s = (True, s\<lparr>launches := launches s @ [l]\<rparr>))
      \<and> (\<forall>e'. map_of (launch_error (host s)) l = Some e' \<longrightarrow>
         open_file p s = (False, print_line (OpenErrorLine (str_exn e')) s)))
   \<and> (fst (open_file p s) \<longleftrightarrow> (\<exists>ls. open_body (host s) p = Inr ls))"
proof (intro conjI impI allI)
  assume "resolve (host s) p = Inl e"
  then show "open_file p s = (False, print_line (OpenErrorLine (str_exn e)) s)"
    by (simp add: open_file_def open_body_def)
next
  assume a: "resolve (host s) p = Inr fp \<and>
        l = (if platform (host s) = (str ''win32'') then Startfile fp
             else if platform (host s) = (str ''linux'') then Popen [(str ''xdg-open''), path_str fp]
             else Popen [(str ''open''), path_str fp]) \<and>
        platform (host s) \<in> {(str ''win32''), (str ''linux''), (str ''darwin'')}"
  then have body: "open_body (host s) p = launch (host s) l"
    by (auto simp: open_body_def)
  {
    assume "map_of (launch_error (host s)) l = None"
    then show "open_file p s = (True, s\<lparr>launches := launches s @ [l]\<rparr>)"
      by (simp add: open_file_def body launch_def)
  }
  {
    fix e' assume "map_of (launch_error (host s)) l = Some e'"
    then show "open_file p s = (False, print_line (OpenErrorLine (str_exn e')) s)"
      by (simp add: open_file_def body launch_def)
  }
next
  show "fst (open_file p s) \<longleftrightarrow> (\<exists>ls. open_body (host s) p = Inr ls)"
    by (cases "open_body (host s) p") (simp_all add: open_file_def)
qed

theorem open_file_returns_bool_witness:
  "open_file notes_relative (start_app upper_first\<lparr>host := in_d_host\<rparr>) =
     (True, start_app upper_first
        \<lparr>host := in_d_host, launches := [Popen [(str ''xdg-open''), (str ''/d/notes.txt'')]]\<rparr>)
   \<and> open_file notes_relative (start_app upper_first\<lparr>host := no_opener_host\<rparr>) =
     (False, start_app upper_first
        \<lparr>host := no_opener_host, printed := [OpenErrorLine no_xdg_open]\<rparr>)
   \<and> open_file notes_relative
        (start_app upper_first
           \<lparr>host := linux_host\<lparr>resolved := [(notes_relative, Inl (OtherException io_error))]\<rparr>\<rparr>) =
     (False, start_app upper_first
        \<lparr>host := linux_host\<lparr>resolved := [(notes_relative, Inl (OtherException io_error))]\<rparr>,
         printed := [OpenErrorLine io_error]\<rparr>)"
proof (intro conjI)
  let ?s = "start_app upper_first\<lparr>host := in_d_host\<rparr>"
  let ?l = "Popen [(str ''xdg-open''), (str ''/d/notes.txt'')]"
  have r: "resolve (host ?s) notes_relative = Inr (joinpath dir_d (str ''notes.txt''))"
    by code_simp
  have l: "?l = (if platform (host ?s) = (str ''win32'') then Startfile (joinpath dir_d (str ''notes.txt''))
             else if platform (host ?s) = (str ''linux'')
               then Popen [(str ''xdg-open''), path_str (joinpath dir_d (str ''notes.txt''))]
             else Popen [(str ''open''), path_str (joinpath dir_d (str ''notes.txt''))])"
    by code_simp
  have pf: "platform (host ?s) \<in> {(str ''win32''), (str ''linux''), (str ''darwin'')}"
    by code_simp
  have ok: "map_of (launch_error (host ?s)) ?l = None"
    by code_simp
  from open_file_returns_bool [of ?s notes_relative _ "joinpath dir_d (str ''notes.txt'')" ?l] r l pf ok
  have "open_file notes_relative ?s = (True, ?s\<lparr>launches := launches ?s @ [?l]\<rparr>)"
    by blast
  then show "open_file notes_relative ?s =
     (True, start_app upper_first\<lparr>host := in_d_host, launches := [?l]\<rparr>)"
    by (simp add: start_app_def)
next
  let ?s = "start_app upper_first\<lparr>host := no_opener_host\<rparr>"
  let ?l = "Popen [(str ''xdg-open''), (str ''/d/notes.txt'')]"
  have r: "resolve (host ?s) notes_relative = Inr (joinpath dir_d (str ''notes.txt''))"
    by code_simp
  have l: "?l = (if platform (host ?s) = (str ''win32'') then Startfile (joinpath dir_d (str ''notes.txt''))
             else if platform (host ?s) = (str ''linux'')
               then Popen [(str ''xdg-open''), path_str (joinpath dir_d (str ''notes.txt''))]
             else Popen [(str ''open''), path_str (joinpath dir_d (str ''notes.txt''))])"
    by code_simp
  have pf: "platform (host ?s) \<in> {(str ''win32''), (str ''linux''), (str ''darwin'')}"
    by code_simp
  have bad: "map_of (launch_error (host ?s)) ?l = Some (FileNotFoundError no_xdg_open)"
    by code_simp
  from open_file_returns_bool [of ?s notes_relative _ "joinpath dir_d (str ''notes.txt'')" ?l] r l pf bad
  have "open_file notes_relative ?s =
      (False, print_line (OpenErrorLine (str_exn (FileNotFoundError no_xdg_open))) ?s)"
    by blast
  then show "open_file notes_relative ?s =
     (False, start_app upper_first
        \<lparr>host := no_opener_host, printed := [OpenErrorLine no_xdg_open]\<rparr>)"
    by (simp add: start_app_def print_line_def)
next
  let ?h = "linux_host\<lparr>resolved := [(notes_relative, Inl (OtherException io_error))]\<rparr>"
  let ?s = "start_app upper_first\<lparr>host := ?h\<rparr>"
  have r: "resolve (host ?s) notes_relative = Inl (OtherException io_error)"
    by code_simp
  from open_file_returns_bool [of ?s notes_relative "OtherException io_error"] r
  have "open_file notes_relative ?s =
      (False, print_line (OpenErrorLine (str_exn (OtherException io_error))) ?s)"
    by blast
  then show "open_file notes_relative ?s =
     (False, start_app upper_first\<lparr>host := ?h, printed := [OpenErrorLine io_error]\<rparr>)"
    by (simp add: start_app_def print_line_def)
qed

subsection \<open>Confirming a delete\<close>

lemma expand_fields [simp]:
  "label (expand n) = label n" "data (expand n) = data n"
  "allow_expand (expand n) = allow_expand n" "is_expanded (expand n)"
  "data_is_dir (expand n) = data_is_dir n" "children (expand n) = children n"
  by (cases n; simp)+

lemma load_children_fs_calls:
  "fs_calls (state_of (load_children lw pos path s)) = fs_calls s"
  by (cases "node_at (file_tree s) pos")
    (simp_all add: load_children_absent load_children_eq split: option.splits)

lemma load_children_files:
  "files (state_of (load_children lw pos path s)) = files s"
  by (cases "node_at (file_tree s) pos")
    (simp_all add: load_children_absent load_children_eq split: option.splits)

lemma after_delete_fs_calls:
  "fs_calls (state_of (after_delete lw pos p s)) = fs_calls s"
proof -
  have "fs_calls (state_of (case load_children lw ppos path s of
            Raised e s' \<Rightarrow> Raised e s'
          | Returned s' \<Rightarrow> Returned (notify m (expand_at ppos s')))) = fs_calls s" for ppos path m
    using load_children_fs_calls [of lw ppos path s]
    by (cases "load_children lw ppos path s") (simp_all add: notify_def expand_at_def)
  then show ?thesis
    by (simp add: after_delete_def notify_def split: option.splits prod.splits)
qed

text \<open>The handlers of lines 220 to 226 send a notice and print; they remove nothing.\<close>

lemma handled_fs_calls:
  "fs_calls (state_of
     (case r of
        Returned s' \<Rightarrow> Returned s'
      | Raised (PermissionError m) s' \<Rightarrow> Returned (notify DeleteNoPermission s')
      | Raised (FileNotFoundError m) s' \<Rightarrow> Returned (notify DeleteNotFound s')
      | Raised (OtherException m) s' \<Rightarrow>
          Returned (print_line (DeleteErrorLine m) (notify (DeleteFailed (take 30 m)) s'))))
   = fs_calls (state_of r)"
  by (simp add: notify_def print_line_def split: outcome.splits exn.splits)

lemma after_delete_files:
  "files (state_of (after_delete lw pos p s)) = files s"
proof -
  have "files (state_of (case load_children lw ppos path s of
            Raised e s' \<Rightarrow> Raised e s'
          | Returned s' \<Rightarrow> Returned (notify m (expand_at ppos s')))) = files s" for ppos path m
    using load_children_files [of lw ppos path s]
    by (cases "load_children lw ppos path s") (simp_all add: notify_def expand_at_def)
  then show ?thesis
    by (simp add: after_delete_def notify_def split: option.splits prod.splits)
qed

lemma handled_files:
  "files (state_of
     (case r of
        Returned s' \<Rightarrow> Returned s'
      | Raised (PermissionError m) s' \<Rightarrow> Returned (notify DeleteNoPermission s')
      | Raised (FileNotFoundError m) s' \<Rightarrow> Returned (notify DeleteNotFound s')
      | Raised (OtherException m) s' \<Rightarrow>
          Returned (print_line (DeleteErrorLine m) (notify (DeleteFailed (take 30 m)) s'))))
   = files (state_of r)"
  by (simp add: notify_def print_line_def split: outcome.splits exn.splits)

text \<open>
  Claim C1 is right and the code misses it. The state is \<open>opened_d upper_first\<close> with the
  cursor on the node of \<^verbatim>\<open>/d/Alpha.txt\<close>, after another program has removed that
  file. The confirmed delete issues no removing call and raises nothing, so control
  reaches line 213: the parent is reloaded (the stale node leaves its child list) and
  the user is told that \<^verbatim>\<open>Alpha.txt\<close> was deleted, where the claim asks for the
  not-found notice of line 223 and an unchanged tree.
\<close>

theorem delete_of_vanished_path_reports_success:
  "cursor_node ((with_cursor [0, 0, 2] (opened_d upper_first))\<lparr>files := alpha_gone\<rparr>) =
     Some ([0, 0, 2],
           TreeNode (Plain (str ''Alpha.txt'')) (Some (joinpath dir_d (str ''Alpha.txt''))) False False None [])
   \<and> path_exists alpha_gone (joinpath dir_d (str ''Alpha.txt'')) = Inr False
   \<and> handle_delete_confirm ascii_lower True
         ((with_cursor [0, 0, 2] (opened_d upper_first))\<lparr>files := alpha_gone\<rparr>) =
       Returned
         ((with_cursor [0, 0, 2] (opened_d upper_first))
            \<lparr>files := alpha_gone,
             file_tree :=
               update_at [0, 0]
                 (\<lambda>n. expand (set_children (loaded_children ascii_lower alpha_gone (Some dir_d)) n))
                 (file_tree (opened_d upper_first)),
             notifications := [Deleted (str ''Alpha.txt'')]\<rparr>)
   \<and> fs_calls (state_of (handle_delete_confirm ascii_lower True
         ((with_cursor [0, 0, 2] (opened_d upper_first))\<lparr>files := alpha_gone\<rparr>))) = []
   \<and> map node_name (children (the (node_at (file_tree (opened_d upper_first)) [0, 0]))) =
       [(str ''bravo''), (str ''charlie''), (str ''Alpha.txt''), (str ''alpha.txt'')]
   \<and> map node_name (loaded_children ascii_lower alpha_gone (Some dir_d)) =
       [(str ''bravo''), (str ''charlie''), (str ''alpha.txt'')]"
  by code_simp

text \<open>
  Claim C9 is right and the code misses it. \<^verbatim>\<open>load_children\<close> calls \<^verbatim>\<open>path.is_dir()\<close>
  at line 84, before its \<^verbatim>\<open>try\<close>; \<^verbatim>\<open>action_open_selected\<close> calls \<^verbatim>\<open>is_file()\<close> at
  line 150 and \<^verbatim>\<open>action_delete_selected\<close> calls \<^verbatim>\<open>exists()\<close> at line 189, each outside
  any \<^verbatim>\<open>try\<close>. The state is \<open>opened_d upper_first\<close> after the search permission of
  \<^verbatim>\<open>/d\<close> has been taken away. With the cursor on the node of the directory
  \<^verbatim>\<open>/d/bravo\<close>, expanding that node and refreshing both let the permission error
  escape; with the cursor on the node of the file \<^verbatim>\<open>/d/Alpha.txt\<close>, opening it and
  requesting its deletion both let it escape. Each handler leaves the state as it was:
  no notice is sent. A confirmed delete in that state catches the error, at line 220.
\<close>

theorem permission_error_escapes_handlers:
  "cursor_node ((with_cursor [0, 0, 0] (opened_d upper_first))\<lparr>files := d_unsearchable\<rparr>) =
     Some ([0, 0, 0],
           TreeNode (Folder (str ''bravo'')) (Some (joinpath dir_d (str ''bravo''))) True False
             (Some True) [])
   \<and> on_tree_node_expanded ascii_lower [0, 0, 0]
         ((with_cursor [0, 0, 0] (opened_d upper_first))\<lparr>files := d_unsearchable\<rparr>) =
       Raised (PermissionError permission_denied)
         ((with_cursor [0, 0, 0] (opened_d upper_first))\<lparr>files := d_unsearchable\<rparr>)
   \<and> action_refresh ascii_lower
         ((with_cursor [0, 0, 0] (opened_d upper_first))\<lparr>files := d_unsearchable\<rparr>) =
       Raised (PermissionError permission_denied)
         ((with_cursor [0, 0, 0] (opened_d upper_first))\<lparr>files := d_unsearchable\<rparr>)
   \<and> cursor_node ((with_cursor [0, 0, 2] (opened_d upper_first))\<lparr>files := d_unsearchable\<rparr>) =
       Some ([0, 0, 2],
             TreeNode (Plain (str ''Alpha.txt'')) (Some (joinpath dir_d (str ''Alpha.txt''))) False False
               None [])
   \<and> action_open_selected
         ((with_cursor [0, 0, 2] (opened_d upper_first))\<lparr>files := d_unsearchable\<rparr>) =
       Raised (PermissionError permission_denied)
         ((with_cursor [0, 0, 2] (opened_d upper_first))\<lparr>files := d_unsearchable\<rparr>)
   \<and> action_delete_selected
         ((with_cursor [0, 0, 2] (opened_d upper_first))\<lparr>files := d_unsearchable\<rparr>) =
       Raised (PermissionError permission_denied)
         ((with_cursor [0, 0, 2] (opened_d upper_first))\<lparr>files := d_unsearchable\<rparr>)
   \<and> handle_delete_confirm ascii_lower True
         ((with_cursor [0, 0, 2] (opened_d upper_first))\<lparr>files := d_unsearchable\<rparr>) =
       Returned
         ((with_cursor [0, 0, 2] (opened_d upper_first))
            \<lparr>files := d_unsearchable, notifications := [DeleteNoPermission]\<rparr>)"
  by code_simp

text \<open>
  Claim C10. What a confirmed delete removes is the path of the node under the cursor
  when the confirmation arrives, whatever path the dialog was opened for (\<open>screens\<close>).
  A file there is unlinked: the one removing call is the unlink of that path, and the
  file system afterwards is the one the unlink leaves (the file system as it was where
  the unlink is refused). A directory there is removed as a tree: the one removing call
  is \<^verbatim>\<open>rmtree\<close> of that path, and the file system afterwards is the one \<^verbatim>\<open>rmtree\<close>
  leaves. In the run stated last, the file system is \<open>upper_first\<close> and nothing has been
  removed; with the cursor on the node of \<^verbatim>\<open>/d/Alpha.txt\<close> the delete is requested and
  the dialog is opened for that path; the cursor moves to the node of \<^verbatim>\<open>/d/alpha.txt\<close>;
  the confirmation unlinks \<^verbatim>\<open>/d/alpha.txt\<close>, and \<^verbatim>\<open>/d/Alpha.txt\<close> is still there.
\<close>

theorem delete_reads_cursor_at_confirmation:
  "(cursor_node s = Some (pos, n) \<and> data n = Some p \<and> is_file (files s) p = Inr True \<longrightarrow>
      fs_calls (state_of (handle_delete_confirm lw True s)) = fs_calls s @ [Unlink p]
      \<and> files (state_of (handle_delete_confirm lw True s)) =
          (case unlink (files s) p of Inl e \<Rightarrow> files s | Inr fs' \<Rightarrow> fs'))
   \<and> (cursor_node s = Some (pos, n) \<and> data n = Some p \<and> is_file (files s) p = Inr False
        \<and> is_dir (files s) p = Inr True \<longrightarrow>
      fs_calls (state_of (handle_delete_confirm lw True s)) = fs_calls s @ [Rmtree p]
      \<and> files (state_of (handle_delete_confirm lw True s)) = snd (rmtree (files s) p))
   \<and> (files (with_cursor [0, 0, 2] (opened_d upper_first)) = upper_first
      \<and> fs_calls (with_cursor [0, 0, 2] (opened_d upper_first)) = []
      \<and> screens (with_cursor [0, 0, 2] (opened_d upper_first)) = []
      \<and> cursor_node (with_cursor [0, 0, 2] (opened_d upper_first)) =
          Some ([0, 0, 2],
                TreeNode (Plain (str ''Alpha.txt'')) (Some (joinpath dir_d (str ''Alpha.txt'')))
                  False False None [])
      \<and> action_delete_selected (with_cursor [0, 0, 2] (opened_d upper_first)) =
          Returned ((with_cursor [0, 0, 2] (opened_d upper_first))
                      \<lparr>screens := [joinpath dir_d (str ''Alpha.txt'')]\<rparr>)
      \<and> cursor_node
          (with_cursor [0, 0, 3]
             ((with_cursor [0, 0, 2] (opened_d upper_first))
                \<lparr>screens := [joinpath dir_d (str ''Alpha.txt'')]\<rparr>)) =
          Some ([0, 0, 3],
                TreeNode (Plain (str ''alpha.txt'')) (Some (joinpath dir_d (str ''alpha.txt'')))
                  False False None [])
      \<and> handle_delete_confirm ascii_lower True
          (with_cursor [0, 0, 3]
             ((with_cursor [0, 0, 2] (opened_d upper_first))
                \<lparr>screens := [joinpath dir_d (str ''Alpha.txt'')]\<rparr>)) =
          Returned
            ((with_cursor [0, 0, 3] (opened_d upper_first))
               \<lparr>files := lower_alpha_gone,
                file_tree :=
                  update_at [0, 0]
                    (\<lambda>n. expand
                       (set_children (loaded_children ascii_lower lower_alpha_gone (Some dir_d)) n))
                    (file_tree (opened_d upper_first)),
                notifications := [Deleted (str ''alpha.txt'')],
                screens := [joinpath dir_d (str ''Alpha.txt'')],
                fs_calls := [Unlink (joinpath dir_d (str ''alpha.txt''))]\<rparr>)
      \<and> path_exists lower_alpha_gone (joinpath dir_d (str ''Alpha.txt'')) = Inr True
      \<and> path_exists lower_alpha_gone (joinpath dir_d (str ''alpha.txt'')) = Inr False)"
proof (rule conjI [OF _ conjI])
  show "cursor_node s = Some (pos, n) \<and> data n = Some p \<and> is_file (files s) p = Inr True \<longrightarrow>
      fs_calls (state_of (handle_delete_confirm lw True s)) = fs_calls s @ [Unlink p]
      \<and> files (state_of (handle_delete_confirm lw True s)) =
          (case unlink (files s) p of Inl e \<Rightarrow> files s | Inr fs' \<Rightarrow> fs')"
  proof (rule impI)
    assume a: "cursor_node s = Some (pos, n) \<and> data n = Some p \<and> is_file (files s) p = Inr True"
    show "fs_calls (state_of (handle_delete_confirm lw True s)) = fs_calls s @ [Unlink p]
      \<and> files (state_of (handle_delete_confirm lw True s)) =
          (case unlink (files s) p of Inl e \<Rightarrow> files s | Inr fs' \<Rightarrow> fs')"
    proof (cases "unlink (files s) p")
      case (Inl e)
      with a show ?thesis
        by (cases e)
          (simp_all add: handle_delete_confirm_def delete_body_def notify_def print_line_def)
    next
      case (Inr fs')
      let ?s1 = "s\<lparr>files := fs', fs_calls := fs_calls s @ [Unlink p]\<rparr>"
      have keep: "fs_calls (state_of (after_delete lw pos p ?s1)) = fs_calls s @ [Unlink p]"
        by (simp add: after_delete_fs_calls)
      have keep': "files (state_of (after_delete lw pos p ?s1)) = fs'"
        by (simp add: after_delete_files)
      have body: "delete_body lw pos n s = after_delete lw pos p ?s1"
        using a Inr by (simp add: delete_body_def)
      show ?thesis
        using a keep keep' Inr
        by (simp add: handle_delete_confirm_def body handled_fs_calls handled_files)
    qed
  qed
next
  show "cursor_node s = Some (pos, n) \<and> data n = Some p \<and> is_file (files s) p = Inr False
        \<and> is_dir (files s) p = Inr True \<longrightarrow>
      fs_calls (state_of (handle_delete_confirm lw True s)) = fs_calls s @ [Rmtree p]
      \<and> files (state_of (handle_delete_confirm lw True s)) = snd (rmtree (files s) p)"
  proof (rule impI)
    assume a: "cursor_node s = Some (pos, n) \<and> data n = Some p \<and> is_file (files s) p = Inr False
        \<and> is_dir (files s) p = Inr True"
    obtain r fs' where rm: "rmtree (files s) p = (r, fs')"
      by (cases "rmtree (files s) p")
    show "fs_calls (state_of (handle_delete_confirm lw True s)) = fs_calls s @ [Rmtree p]
      \<and> files (state_of (handle_delete_confirm lw True s)) = snd (rmtree (files s) p)"
    proof (cases r)
      case None
      let ?s1 = "s\<lparr>files := fs', fs_calls := fs_calls s @ [Rmtree p]\<rparr>"
      have keep: "fs_calls (state_of (after_delete lw pos p ?s1)) = fs_calls s @ [Rmtree p]"
        by (simp add: after_delete_fs_calls)
      have keep': "files (state_of (after_delete lw pos p ?s1)) = fs'"
        by (simp add: after_delete_files)
      have body: "delete_body lw pos n s = after_delete lw pos p ?s1"
        using a rm None by (simp add: delete_body_def)
      show ?thesis
        using a keep keep' rm
        by (simp add: handle_delete_confirm_def body handled_fs_calls handled_files)
    next
      case (Some e)
      with a rm show ?thesis
        by (cases e)
          (simp_all add: handle_delete_confirm_def delete_body_def notify_def print_line_def)
    qed
  qed
next
  show "files (with_cursor [0, 0, 2] (opened_d upper_first)) = upper_first
      \<and> fs_calls (with_cursor [0, 0, 2] (opened_d upper_first)) = []
      \<and> screens (with_cursor [0, 0, 2] (opened_d upper_first)) = []
      \<and> cursor_node (with_cursor [0, 0, 2] (opened_d upper_first)) =
          Some ([0, 0, 2],
                TreeNode (Plain (str ''Alpha.txt'')) (Some (joinpath dir_d (str ''Alpha.txt'')))
                  False False None [])
      \<and> action_delete_selected (with_cursor [0, 0, 2] (opened_d upper_first)) =
          Returned ((with_cursor [0, 0, 2] (opened_d upper_first))
                      \<lparr>screens := [joinpath dir_d (str ''Alpha.txt'')]\<rparr>)
      \<and> cursor_node
          (with_cursor [0, 0, 3]
             ((with_cursor [0, 0, 2] (opened_d upper_first))
                \<lparr>screens := [joinpath dir_d (str ''Alpha.txt'')]\<rparr>)) =
          Some ([0, 0, 3],
                TreeNode (Plain (str ''alpha.txt'')) (Some (joinpath dir_d (str ''alpha.txt'')))
                  False False None [])
      \<and> handle_delete_confirm ascii_lower True
          (with_cursor [0, 0, 3]
             ((with_cursor [0, 0, 2] (opened_d upper_first))
                \<lparr>screens := [joinpath dir_d (str ''Alpha.txt'')]\<rparr>)) =
          Returned
            ((with_cursor [0, 0, 3] (opened_d upper_first))
               \<lparr>files := lower_alpha_gone,
                file_tree :=
                  update_at [0, 0]
                    (\<lambda>n. expand
                       (set_children (loaded_children ascii_lower lower_alpha_gone (Some dir_d)) n))
                    (file_tree (opened_d upper_first)),
                notifications := [Deleted (str ''alpha.txt'')],
                screens := [joinpath dir_d (str ''Alpha.txt'')],
                fs_calls := [Unlink (joinpath dir_d (str ''alpha.txt''))]\<rparr>)
      \<and> path_exists lower_alpha_gone (joinpath dir_d (str ''Alpha.txt'')) = Inr True
      \<and> path_exists lower_alpha_gone (joinpath dir_d (str ''alpha.txt'')) = Inr False"
    by code_simp
qed

theorem delete_reads_cursor_at_confirmation_witness:
  "cursor_node (with_cursor [0, 0, 3] (opened_d upper_first\<lparr>screens := [joinpath dir_d (str ''Alpha.txt'')]\<rparr>))
     = Some ([0, 0, 3],
         TreeNode (Plain (str ''alpha.txt'')) (Some (joinpath dir_d (str ''alpha.txt''))) False False None [])
   \<and> is_file upper_first (joinpath dir_d (str ''alpha.txt'')) = Inr True
   \<and> fs_calls (state_of (handle_delete_confirm ascii_lower True
        (with_cursor [0, 0, 3] (opened_d upper_first\<lparr>screens := [joinpath dir_d (str ''Alpha.txt'')]\<rparr>))))
     = [Unlink (joinpath dir_d (str ''alpha.txt''))]
   \<and> files (state_of (handle_delete_confirm ascii_lower True
        (with_cursor [0, 0, 3] (opened_d upper_first\<lparr>screens := [joinpath dir_d (str ''Alpha.txt'')]\<rparr>))))
     = lower_alpha_gone"
proof -
  let ?s = "with_cursor [0, 0, 3] (opened_d upper_first\<lparr>screens := [joinpath dir_d (str ''Alpha.txt'')]\<rparr>)"
  let ?n = "TreeNode (Plain (str ''alpha.txt'')) (Some (joinpath dir_d (str ''alpha.txt''))) False False None []"
  let ?p = "joinpath dir_d (str ''alpha.txt'')"
  have c: "cursor_node ?s = Some ([0, 0, 3], ?n)" by code_simp
  have d: "data ?n = Some ?p" by simp
  have f: "is_file (files ?s) ?p = Inr True" by code_simp
  have f': "is_file upper_first ?p = Inr True" by code_simp
  have e: "fs_calls ?s = []" by code_simp
  have u: "unlink (files ?s) ?p = Inr lower_alpha_gone" by code_simp
  have pre: "cursor_node ?s = Some ([0, 0, 3], ?n) \<and> data ?n = Some ?p
      \<and> is_file (files ?s) ?p = Inr True"
    using c d f by simp
  from delete_reads_cursor_at_confirmation
    [where s = ?s and pos = "[0, 0, 3]" and n = ?n and p = ?p and lw = ascii_lower,
      THEN conjunct1, THEN mp, OF pre]
  have "fs_calls (state_of (handle_delete_confirm ascii_lower True ?s)) = [Unlink ?p]
      \<and> files (state_of (handle_delete_confirm ascii_lower True ?s)) = lower_alpha_gone"
    by (simp add: e u)
  with c f' show ?thesis by simp
qed

subsection \<open>Nodes and their parents\<close>

lemma node_ok_iff:
  "node_ok n \<longleftrightarrow>
     (data_is_dir n \<noteq> None \<or> children n \<noteq> [] \<longrightarrow> is_directory_node n) \<and>
     (\<forall>c \<in> set (children n). node_ok c)"
  by (cases n) (simp add: is_directory_node_def)

lemma parent_is_directory:
  "node_ok m \<Longrightarrow> node_at m pos = Some n \<Longrightarrow> pos \<noteq> [] \<Longrightarrow>
   \<exists>pn. node_at m (butlast pos) = Some pn \<and> is_directory_node pn"
proof (induction pos arbitrary: m)
  case Nil
  then show ?case by simp
next
  case (Cons i pos)
  from Cons.prems(2) have i: "i < length (children m)"
    and sub: "node_at (children m ! i) pos = Some n"
    by (auto split: if_splits)
  show ?case
  proof (cases "pos = []")
    case True
    from i have "children m \<noteq> []" by auto
    with Cons.prems(1) have "is_directory_node m" by (simp add: node_ok_iff [of m])
    with True show ?thesis by simp
  next
    case False
    from Cons.prems(1) i have "node_ok (children m ! i)" by (simp add: node_ok_iff [of m])
    from Cons.IH [OF this sub False] False i show ?thesis by simp
  qed
qed

lemma wf_parent:
  assumes "wf_tree t" and "node_at t pos = Some n" and "1 < length pos"
  shows "\<exists>pn. node_at t (butlast pos) = Some pn \<and> is_directory_node pn"
proof -
  from assms(3) obtain i rest where pos: "pos = i # rest" and rest: "rest \<noteq> []"
    by (cases pos) auto
  from assms(2) pos have i: "i < length (children t)"
    and sub: "node_at (children t ! i) rest = Some n"
    by (auto split: if_splits)
  from assms(1) i have "node_ok (children t ! i)" by (simp add: wf_tree_def)
  from parent_is_directory [OF this sub rest] pos rest i show ?thesis by simp
qed

lemma wf_top_level:
  "wf_tree t \<Longrightarrow> node_at t [i] = Some n \<Longrightarrow> is_directory_node n"
  by (auto simp: wf_tree_def split: if_splits)

lemma wf_other_nodes_are_deep:
  assumes "wf_tree t" and "node_at t pos = Some n" and "pos \<noteq> []" and "data_is_dir n = None"
  shows "1 < length pos"
proof (rule ccontr)
  assume "\<not> 1 < length pos"
  with assms(3) obtain i where "pos = [i]" by (cases pos) auto
  with wf_top_level [OF assms(1)] assms(2) have "is_directory_node n" by simp
  with assms(4) show False by (simp add: is_directory_node_def)
qed

subsection \<open>Refreshing\<close>

lemma cursor_node_Some:
  "cursor_node s = Some (pos, n) \<longleftrightarrow> cursor s = Some pos \<and> node_at (file_tree s) pos = Some n"
  by (auto simp: cursor_node_def split: option.splits)

lemma load_node_fst: "fst (load_node lw fsys path n) = load_raises fsys path"
  by (simp add: load_node_eq)

lemma load_node_snd: "snd (load_node lw fsys path n) = set_children (loaded_children lw fsys path) n"
  by (simp add: load_node_eq)

lemma reload_then_expand:
  assumes "node_at (file_tree s) pos = Some n"
  shows "notify m (expand_at pos (reload_at lw pos path s)) =
         s\<lparr>file_tree := update_at pos (\<lambda>_. expand (snd (load_node lw (files s) path n))) (file_tree s),
           notifications := notifications s @ [m]\<rparr>"
proof -
  have "update_at pos (expand \<circ> set_children (loaded_children lw (files s) path)) (file_tree s) =
        update_at pos (\<lambda>_. expand (snd (load_node lw (files s) path n))) (file_tree s)"
    by (rule update_at_cong [OF assms]) (simp add: load_node_snd)
  then show ?thesis
    by (simp add: notify_def expand_at_def reload_at_def update_at_twice)
qed

lemma refresh_roots_append:
  "refresh_roots lw (xs @ ys) s =
     (case refresh_roots lw xs s of
        Raised e s' \<Rightarrow> Raised e s'
      | Returned s' \<Rightarrow> refresh_roots lw ys s')"
proof (induction xs arbitrary: s)
  case Nil
  show ?case by simp
next
  case (Cons i xs)
  show ?case
    by (simp add: Cons.IH split: option.splits outcome.splits)
qed

lemma reload_prefix_step:
  assumes "k < length cs"
  shows "(map R (take k cs) @ drop k cs)[k := R (cs ! k)] =
         map R (take (Suc k) cs) @ drop (Suc k) cs"
proof -
  have "drop k cs = cs ! k # drop (Suc k) cs"
    using assms by (simp add: Cons_nth_drop_Suc)
  then show ?thesis
    using assms by (simp add: list_update_append take_Suc_conv_app_nth)
qed

lemma refresh_roots_prefix:
  assumes "\<forall>r \<in> set (children (file_tree s)).
             data_is_dir r = Some True \<and> load_raises (files s) (data r) = None"
    and "k \<le> length (children (file_tree s))"
  shows "refresh_roots lw [0..<k] s =
           Returned (s\<lparr>file_tree :=
             set_children
               (map (\<lambda>r. set_children (loaded_children lw (files s) (data r)) r)
                  (take k (children (file_tree s))) @ drop k (children (file_tree s)))
               (file_tree s)\<rparr>)"
  using assms(2)
proof (induction k)
  case 0
  show ?case by simp
next
  case (Suc k)
  let ?cs = "children (file_tree s)"
  let ?R = "\<lambda>r. set_children (loaded_children lw (files s) (data r)) r"
  let ?sk = "s\<lparr>file_tree := set_children (map ?R (take k ?cs) @ drop k ?cs) (file_tree s)\<rparr>"
  from Suc.prems have k: "k < length ?cs" by simp
  from Suc.IH k have pre: "refresh_roots lw [0..<k] s = Returned ?sk" by simp
  have nth: "(map ?R (take k ?cs) @ drop k ?cs) ! k = ?cs ! k"
    using k by (simp add: nth_append)
  have node: "node_at (file_tree ?sk) [k] = Some (?cs ! k)"
    using k nth by simp
  from assms(1) k have tag: "data_is_dir (?cs ! k) = Some True"
    and ok: "load_raises (files s) (data (?cs ! k)) = None"
    by simp_all
  have "load_children lw [k] (data (?cs ! k)) ?sk = Returned (reload_at lw [k] (data (?cs ! k)) ?sk)"
    using load_children_eq [OF node, of lw "data (?cs ! k)"] ok by simp
  moreover have "reload_at lw [k] (data (?cs ! k)) ?sk =
      s\<lparr>file_tree := set_children (map ?R (take (Suc k) ?cs) @ drop (Suc k) ?cs) (file_tree s)\<rparr>"
    using k nth reload_prefix_step [OF k, of ?R] by (simp add: reload_at_def)
  ultimately have step: "refresh_roots lw [k] ?sk =
      Returned (s\<lparr>file_tree :=
        set_children (map ?R (take (Suc k) ?cs) @ drop (Suc k) ?cs) (file_tree s)\<rparr>)"
    using node tag by (simp del: node_at.simps)
  have "[0..<Suc k] = [0..<k] @ [k]" by simp
  then show ?case
    by (simp only: refresh_roots_append pre step outcome.case)
qed

text \<open>
  Where the reload returns (the directory check of line 84 raises nothing), a refresh
  in a tree of the shape the program builds does the following.
  With the cursor on a directory node, that node is reloaded and expanded; with the
  cursor on a node without the directory attribute below the root (a file), the node's
  parent is a directory node, and it is the parent that is reloaded and expanded; with
  no node under the cursor, every child of the root is reloaded and the expansion flag
  of each stays as it was. Nothing else in the tree changes.
\<close>

lemma action_refresh_where_reload_returns:
  assumes "wf_tree (file_tree s)"
  shows
    "(cursor_node s = Some (pos, n) \<and> is_directory_node n
        \<and> fst (load_node lw (files s) (data n) n) = None \<longrightarrow>
        action_refresh lw s =
          Returned (s\<lparr>file_tree :=
                       update_at pos (\<lambda>_. expand (snd (load_node lw (files s) (data n) n)))
                         (file_tree s),
                     notifications := notifications s @ [RefreshedDirectory]\<rparr>)
        \<and> node_at (file_tree (state_of (action_refresh lw s))) pos =
            Some (expand (snd (load_node lw (files s) (data n) n))))
     \<and> (cursor_node s = Some (pos, n) \<and> pos \<noteq> [] \<and> data_is_dir n = None \<longrightarrow>
        (\<exists>pn. node_at (file_tree s) (butlast pos) = Some pn \<and> is_directory_node pn
           \<and> (fst (load_node lw (files s) (data pn) pn) = None \<longrightarrow>
               action_refresh lw s =
                 Returned (s\<lparr>file_tree :=
                              update_at (butlast pos)
                                (\<lambda>_. expand (snd (load_node lw (files s) (data pn) pn)))
                                (file_tree s),
                            notifications := notifications s @ [RefreshedParent]\<rparr>)
               \<and> node_at (file_tree (state_of (action_refresh lw s))) (butlast pos) =
                   Some (expand (snd (load_node lw (files s) (data pn) pn))))))
     \<and> (cursor_node s = None
        \<and> (\<forall>r \<in> set (children (file_tree s)). fst (load_node lw (files s) (data r) r) = None) \<longrightarrow>
        action_refresh lw s =
          Returned (s\<lparr>file_tree :=
                       set_children
                         (map (\<lambda>r. snd (load_node lw (files s) (data r) r)) (children (file_tree s)))
                         (file_tree s),
                     notifications := notifications s @ [RefreshedFilesystem]\<rparr>)
        \<and> map is_expanded (children (file_tree (state_of (action_refresh lw s)))) =
            map is_expanded (children (file_tree s)))"
proof (intro conjI impI)
  assume a: "cursor_node s = Some (pos, n) \<and> is_directory_node n
        \<and> fst (load_node lw (files s) (data n) n) = None"
  then have node: "node_at (file_tree s) pos = Some n" by (simp add: cursor_node_Some)
  from a have ok: "load_raises (files s) (data n) = None" by (simp add: load_node_fst)
  show r: "action_refresh lw s =
          Returned (s\<lparr>file_tree :=
                       update_at pos (\<lambda>_. expand (snd (load_node lw (files s) (data n) n)))
                         (file_tree s),
                     notifications := notifications s @ [RefreshedDirectory]\<rparr>)"
    using a by (simp add: action_refresh_def load_children_eq [OF node] ok
        reload_then_expand [OF node])
  show "node_at (file_tree (state_of (action_refresh lw s))) pos =
            Some (expand (snd (load_node lw (files s) (data n) n)))"
    by (simp add: r node_at_update_at [OF node])
next
  assume a: "cursor_node s = Some (pos, n) \<and> pos \<noteq> [] \<and> data_is_dir n = None"
  then have node: "node_at (file_tree s) pos = Some n" by (simp add: cursor_node_Some)
  from a have not_dir: "\<not> is_directory_node n" by (simp add: is_directory_node_def)
  from wf_other_nodes_are_deep [OF assms node] a have "1 < length pos" by simp
  from wf_parent [OF assms node this] obtain pn
    where pn: "node_at (file_tree s) (butlast pos) = Some pn" and dir: "is_directory_node pn"
    by blast
  from a pn have par: "parent_of s pos = Some (butlast pos, pn)" by (simp add: parent_of_def)
  from dir have tagged: "data_is_dir pn \<noteq> None" by (simp add: is_directory_node_def)
  have cond: "action_refresh lw s =
          Returned (s\<lparr>file_tree :=
                       update_at (butlast pos)
                         (\<lambda>_. expand (snd (load_node lw (files s) (data pn) pn))) (file_tree s),
                     notifications := notifications s @ [RefreshedParent]\<rparr>)
        \<and> node_at (file_tree (state_of (action_refresh lw s))) (butlast pos) =
            Some (expand (snd (load_node lw (files s) (data pn) pn)))"
    if "fst (load_node lw (files s) (data pn) pn) = None"
  proof -
    from that have ok: "load_raises (files s) (data pn) = None" by (simp add: load_node_fst)
    have r: "action_refresh lw s =
          Returned (s\<lparr>file_tree :=
                       update_at (butlast pos)
                         (\<lambda>_. expand (snd (load_node lw (files s) (data pn) pn))) (file_tree s),
                     notifications := notifications s @ [RefreshedParent]\<rparr>)"
      using a not_dir tagged
      by (simp add: action_refresh_def par load_children_eq [OF pn] ok
          reload_then_expand [OF pn])
    then show ?thesis by (simp add: node_at_update_at [OF pn])
  qed
  show "\<exists>pn. node_at (file_tree s) (butlast pos) = Some pn \<and> is_directory_node pn
           \<and> (fst (load_node lw (files s) (data pn) pn) = None \<longrightarrow>
               action_refresh lw s =
                 Returned (s\<lparr>file_tree :=
                              update_at (butlast pos)
                                (\<lambda>_. expand (snd (load_node lw (files s) (data pn) pn)))
                                (file_tree s),
                            notifications := notifications s @ [RefreshedParent]\<rparr>)
               \<and> node_at (file_tree (state_of (action_refresh lw s))) (butlast pos) =
                   Some (expand (snd (load_node lw (files s) (data pn) pn))))"
  proof (intro exI [of _ pn] conjI impI)
    show "node_at (file_tree s) (butlast pos) = Some pn" by (rule pn)
    show "is_directory_node pn" by (rule dir)
  next
    assume q: "fst (load_node lw (files s) (data pn) pn) = None"
    from cond [OF q] show "action_refresh lw s =
                 Returned (s\<lparr>file_tree :=
                              update_at (butlast pos)
                                (\<lambda>_. expand (snd (load_node lw (files s) (data pn) pn)))
                                (file_tree s),
                            notifications := notifications s @ [RefreshedParent]\<rparr>)"
      by (rule conjunct1)
    from cond [OF q] show "node_at (file_tree (state_of (action_refresh lw s))) (butlast pos) =
                   Some (expand (snd (load_node lw (files s) (data pn) pn)))"
      by (rule conjunct2)
  qed
next
  assume a: "cursor_node s = None
        \<and> (\<forall>r \<in> set (children (file_tree s)). fst (load_node lw (files s) (data r) r) = None)"
  have all: "\<forall>r \<in> set (children (file_tree s)).
             data_is_dir r = Some True \<and> load_raises (files s) (data r) = None"
    using a assms by (simp add: wf_tree_def is_directory_node_def load_node_fst)
  have snd_eq: "(\<lambda>r. snd (load_node lw (files s) (data r) r)) =
      (\<lambda>r. set_children (loaded_children lw (files s) (data r)) r)"
    by (rule ext) (simp add: load_node_snd)
  show r: "action_refresh lw s =
          Returned (s\<lparr>file_tree :=
                       set_children
                         (map (\<lambda>r. snd (load_node lw (files s) (data r) r)) (children (file_tree s)))
                         (file_tree s),
                     notifications := notifications s @ [RefreshedFilesystem]\<rparr>)"
    using a refresh_roots_prefix [OF all, of "length (children (file_tree s))"]
    by (simp add: action_refresh_def notify_def snd_eq)
  show "map is_expanded (children (file_tree (state_of (action_refresh lw s)))) =
            map is_expanded (children (file_tree s))"
    by (simp add: r comp_def load_node_snd)
qed

text \<open>
  Claim C6 is right and the code misses it. The state is \<open>opened_d upper_first\<close> with
  the cursor on the node of the directory \<^verbatim>\<open>/d/bravo\<close>, a directory node that is not
  expanded, after the search permission of \<^verbatim>\<open>/d\<close> has been taken away.
  \<^verbatim>\<open>action_refresh\<close> calls \<^verbatim>\<open>load_children\<close> at line 116, whose \<^verbatim>\<open>path.is_dir()\<close> at
  line 84 stands before the \<^verbatim>\<open>try\<close>: the permission error escapes the handler, line 117
  is not reached, and the node is left as it was, not expanded; no notice is sent. On
  \<open>upper_first\<close> itself the same refresh returns with the node expanded and the notice
  sent.
\<close>

theorem refresh_leaves_directory_collapsed:
  "cursor_node ((with_cursor [0, 0, 0] (opened_d upper_first))\<lparr>files := d_unsearchable\<rparr>) =
     Some ([0, 0, 0],
           TreeNode (Folder (str ''bravo'')) (Some (joinpath dir_d (str ''bravo''))) True False
             (Some True) [])
   \<and> is_directory_node
         (TreeNode (Folder (str ''bravo'')) (Some (joinpath dir_d (str ''bravo''))) True False
            (Some True) [])
   \<and> is_dir d_unsearchable (joinpath dir_d (str ''bravo'')) =
       Inl (PermissionError permission_denied)
   \<and> action_refresh ascii_lower
         ((with_cursor [0, 0, 0] (opened_d upper_first))\<lparr>files := d_unsearchable\<rparr>) =
       Raised (PermissionError permission_denied)
         ((with_cursor [0, 0, 0] (opened_d upper_first))\<lparr>files := d_unsearchable\<rparr>)
   \<and> node_at
         (file_tree (state_of (action_refresh ascii_lower
            ((with_cursor [0, 0, 0] (opened_d upper_first))\<lparr>files := d_unsearchable\<rparr>))))
         [0, 0, 0] =
       Some (TreeNode (Folder (str ''bravo'')) (Some (joinpath dir_d (str ''bravo''))) True False
               (Some True) [])
   \<and> notifications (state_of (action_refresh ascii_lower
         ((with_cursor [0, 0, 0] (opened_d upper_first))\<lparr>files := d_unsearchable\<rparr>))) = []
   \<and> action_refresh ascii_lower (with_cursor [0, 0, 0] (opened_d upper_first)) =
       Returned
         ((with_cursor [0, 0, 0] (opened_d upper_first))
            \<lparr>file_tree := update_at [0, 0, 0] expand (file_tree (opened_d upper_first)),
             notifications := [RefreshedDirectory]\<rparr>)
   \<and> node_at (update_at [0, 0, 0] expand (file_tree (opened_d upper_first))) [0, 0, 0] =
       Some (TreeNode (Folder (str ''bravo'')) (Some (joinpath dir_d (str ''bravo''))) True True
               (Some True) [])"
  by code_simp

subsection \<open>Deleting a file\<close>




lemma placeholder_data [simp]: "data (placeholder e) = None"
  by (cases e) (simp_all add: placeholder_def new_node_def)

lemma entry_node_data [simp]: "data (entry_node fsys x) = Some x"
  by (simp add: entry_node_def new_node_def)





subsection \<open>The shape of the tree is kept\<close>

lemma collapse_fields [simp]:
  "label (collapse n) = label n" "data (collapse n) = data n"
  "allow_expand (collapse n) = allow_expand n" "\<not> is_expanded (collapse n)"
  "data_is_dir (collapse n) = data_is_dir n" "children (collapse n) = children n"
  by (cases n; simp)+

lemma is_directory_node_set_children [simp]:
  "is_directory_node (set_children cs n) = is_directory_node n"
  by (simp add: is_directory_node_def)

lemma node_ok_node_at: "node_ok m \<Longrightarrow> node_at m pos = Some n \<Longrightarrow> node_ok n"
proof (induction pos arbitrary: m)
  case Nil
  then show ?case by simp
next
  case (Cons i pos)
  from Cons.prems(2) have i: "i < length (children m)"
    and sub: "node_at (children m ! i) pos = Some n"
    by (auto split: if_splits)
  from Cons.prems(1) i have "node_ok (children m ! i)" by (simp add: node_ok_iff [of m])
  from Cons.IH [OF this sub] show ?case .
qed

lemma update_at_keeps_fields:
  "pos \<noteq> [] \<Longrightarrow>
   data (update_at pos f m) = data m \<and> data_is_dir (update_at pos f m) = data_is_dir m"
  by (cases pos) auto

lemma node_ok_update_at:
  "node_ok m \<Longrightarrow> (\<forall>n. node_at m pos = Some n \<longrightarrow> node_ok (f n)) \<Longrightarrow>
   node_ok (update_at pos f m)"
proof (induction pos arbitrary: m)
  case Nil
  then show ?case by simp
next
  case (Cons i pos)
  show ?case
  proof (cases "i < length (children m)")
    case False
    with Cons.prems(1) show ?thesis by simp
  next
    case True
    let ?x = "update_at pos f (children m ! i)"
    from Cons.prems(1) True have child: "node_ok (children m ! i)"
      by (simp add: node_ok_iff [of m])
    from Cons.prems(2) True have "\<forall>n. node_at (children m ! i) pos = Some n \<longrightarrow> node_ok (f n)"
      by simp
    from Cons.IH [OF child this] have x: "node_ok ?x" .
    from True have "children m \<noteq> []" by auto
    with Cons.prems(1) have dir: "is_directory_node m" by (simp add: node_ok_iff [of m])
    have "\<forall>c \<in> set ((children m)[i := ?x]). node_ok c"
    proof
      fix c assume "c \<in> set ((children m)[i := ?x])"
      then have "c = ?x \<or> c \<in> set (children m)"
        using set_update_subset_insert [of "children m" i ?x] by auto
      with x Cons.prems(1) show "node_ok c" by (auto simp: node_ok_iff [of m])
    qed
    with dir True show ?thesis
      by (simp add: node_ok_iff [of "set_children _ m"])
  qed
qed

text \<open>
  Replacing the node at a position below the root keeps the shape, when the new node is
  well shaped and a directory node stays one.
\<close>

lemma wf_tree_update_at:
  assumes "wf_tree t" and "pos \<noteq> []"
    and "\<forall>n. node_at t pos = Some n \<longrightarrow>
           node_ok (f n) \<and> (is_directory_node n \<longrightarrow> is_directory_node (f n))"
  shows "wf_tree (update_at pos f t)"
proof -
  from assms(2) obtain i rest where pos: "pos = i # rest" by (cases pos) auto
  show ?thesis
  proof (cases "i < length (children t)")
    case False
    with assms(1) pos show ?thesis by simp
  next
    case True
    let ?c = "children t ! i"
    let ?x = "update_at rest f ?c"
    from assms(1) True have c: "is_directory_node ?c" "node_ok ?c"
      by (simp_all add: wf_tree_def)
    from assms(3) pos True
    have f: "\<forall>n. node_at ?c rest = Some n \<longrightarrow>
           node_ok (f n) \<and> (is_directory_node n \<longrightarrow> is_directory_node (f n))"
      by simp
    then have ok: "node_ok ?x" using node_ok_update_at [OF c(2), of rest f] by blast
    have dir: "is_directory_node ?x"
    proof (cases "rest = []")
      case True
      with f c(1) show ?thesis by simp
    next
      case False
      from update_at_keeps_fields [OF False, of f ?c] c(1) show ?thesis
        by (simp add: is_directory_node_def)
    qed
    have "\<forall>c \<in> set ((children t)[i := ?x]). is_directory_node c \<and> node_ok c"
    proof
      fix c assume "c \<in> set ((children t)[i := ?x])"
      then have "c = ?x \<or> c \<in> set (children t)"
        using set_update_subset_insert [of "children t" i ?x] by auto
      with ok dir assms(1) show "is_directory_node c \<and> node_ok c"
        by (auto simp: wf_tree_def)
    qed
    with assms(1) pos True show ?thesis by (simp add: wf_tree_def)
  qed
qed

lemma node_ok_placeholder [simp]: "node_ok (placeholder e)"
  by (cases e) (simp_all add: placeholder_def new_node_def)

lemma node_ok_entry_node [simp]: "node_ok (entry_node fsys x)"
  by (simp add: entry_node_def new_node_def)

lemma node_ok_loaded_children:
  assumes "c \<in> set (loaded_children lw fsys path)"
  shows "node_ok c"
proof (cases path)
  case None
  with assms show ?thesis by (simp add: loaded_children_def)
next
  case (Some q)
  show ?thesis
  proof (cases "is_dir fsys q = Inr True")
    case False
    with assms Some show ?thesis
      by (auto simp: loaded_children_def split: sum.splits bool.splits)
  next
    case True
    with assms Some show ?thesis
      by (cases "sorted_entries lw fsys q") (auto simp: loaded_children_def)
  qed
qed

lemma node_ok_reloaded:
  assumes "node_ok n" and "data_is_dir n \<noteq> None"
  shows "node_ok (set_children (loaded_children lw fsys path) n)"
proof -
  from assms have "is_directory_node n" by (simp add: node_ok_iff [of n])
  then show ?thesis
    by (simp add: node_ok_iff [of "set_children _ n"] node_ok_loaded_children)
qed

lemma wf_tree_node_at:
  assumes "wf_tree t" and "node_at t pos = Some n" and "pos \<noteq> []"
  shows "node_ok n"
proof -
  from assms(3) obtain i rest where pos: "pos = i # rest" by (cases pos) auto
  from assms(2) pos have i: "i < length (children t)"
    and sub: "node_at (children t ! i) rest = Some n"
    by (auto split: if_splits)
  from assms(1) i have "node_ok (children t ! i)" by (simp add: wf_tree_def)
  from node_ok_node_at [OF this sub] show ?thesis .
qed

lemma wf_load_children:
  assumes "wf_tree (file_tree s)"
    and "\<forall>n. node_at (file_tree s) pos = Some n \<longrightarrow> data_is_dir n \<noteq> None"
  shows "wf_tree (file_tree (state_of (load_children lw pos path s)))"
proof (cases "node_at (file_tree s) pos")
  case None
  with assms(1) show ?thesis by (simp add: load_children_absent)
next
  case (Some n)
  with assms(2) have tag: "data_is_dir n \<noteq> None" by simp
  from assms(1) have "data_is_dir (file_tree s) = None" by (simp add: wf_tree_def)
  with Some tag have pos: "pos \<noteq> []" by auto
  from wf_tree_node_at [OF assms(1) Some pos] have ok: "node_ok n" .
  have "wf_tree (update_at pos (set_children (loaded_children lw (files s) path)) (file_tree s))"
    using assms(1) pos
  proof (rule wf_tree_update_at)
    show "\<forall>m. node_at (file_tree s) pos = Some m \<longrightarrow>
           node_ok (set_children (loaded_children lw (files s) path) m) \<and>
           (is_directory_node m \<longrightarrow>
            is_directory_node (set_children (loaded_children lw (files s) path) m))"
      using Some node_ok_reloaded [OF ok tag] by simp
  qed
  then show ?thesis
    by (simp add: load_children_eq [OF Some] reload_at_def split: option.splits)
qed

lemma wf_flag_update:
  assumes "wf_tree t"
    and "\<forall>n. data (f n) = data n \<and> data_is_dir (f n) = data_is_dir n \<and> children (f n) = children n"
  shows "wf_tree (update_at pos f t)"
proof (cases "pos = []")
  case True
  with assms show ?thesis by (simp add: wf_tree_def)
next
  case False
  have keep: "node_ok (f n)" if "node_ok n" for n
    using that assms(2) by (simp add: node_ok_iff [of "f n"] node_ok_iff [of n] is_directory_node_def)
  from assms(1) False show ?thesis
  proof (rule wf_tree_update_at)
    show "\<forall>n. node_at t pos = Some n \<longrightarrow>
           node_ok (f n) \<and> (is_directory_node n \<longrightarrow> is_directory_node (f n))"
      using wf_tree_node_at [OF assms(1) _ False] keep assms(2)
      by (auto simp: is_directory_node_def)
  qed
qed

lemma wf_expand_at: "wf_tree (file_tree s) \<Longrightarrow> wf_tree (file_tree (expand_at pos s))"
  by (simp add: expand_at_def wf_flag_update)

lemma wf_load_then_expand:
  assumes "wf_tree (file_tree s)"
    and "\<forall>n. node_at (file_tree s) pos = Some n \<longrightarrow> data_is_dir n \<noteq> None"
  shows "wf_tree (file_tree (state_of
           (case load_children lw pos path s of
              Raised e s' \<Rightarrow> Raised e s'
            | Returned s' \<Rightarrow> Returned (notify m (expand_at pos s')))))"
  using wf_load_children [OF assms, of lw path]
  by (cases "load_children lw pos path s") (simp_all add: notify_def wf_expand_at)

lemma wf_refresh_roots:
  "wf_tree (file_tree s) \<Longrightarrow> wf_tree (file_tree (state_of (refresh_roots lw idx s)))"
proof (induction idx arbitrary: s)
  case Nil
  then show ?case by simp
next
  case (Cons i idx)
  show ?case
  proof (cases "node_at (file_tree s) [i]")
    case None
    with Cons show ?thesis by (simp del: node_at.simps)
  next
    case (Some r)
    show ?thesis
    proof (cases "data_is_dir r = Some True")
      case False
      with Some Cons show ?thesis by (simp del: node_at.simps)
    next
      case True
      with Some have "\<forall>n. node_at (file_tree s) [i] = Some n \<longrightarrow> data_is_dir n \<noteq> None"
        by auto
      from wf_load_children [OF Cons.prems this, of lw "data r"]
      have wf': "wf_tree (file_tree (state_of (load_children lw [i] (data r) s)))" .
      show ?thesis
      proof (cases "load_children lw [i] (data r) s")
        case (Returned s')
        with wf' have "wf_tree (file_tree s')" by simp
        from Cons.IH [OF this] Some True Returned show ?thesis
          by (simp del: node_at.simps)
      next
        case (Raised e s')
        with wf' Some True show ?thesis by (simp del: node_at.simps)
      qed
    qed
  qed
qed

text \<open>
  Every handler keeps the shape of the tree, whether it returns or raises, and start-up
  builds a tree of that shape.
\<close>

lemma wf_on_tree_node_expanded:
  assumes "wf_tree (file_tree s)"
  shows "wf_tree (file_tree (state_of (on_tree_node_expanded lw pos s)))"
proof (cases "node_at (file_tree s) pos")
  case None
  with assms show ?thesis by (simp add: on_tree_node_expanded_def)
next
  case (Some n)
  show ?thesis
  proof (cases "is_directory_node n")
    case False
    with Some assms show ?thesis by (simp add: on_tree_node_expanded_def)
  next
    case True
    with Some have "\<forall>m. node_at (file_tree s) pos = Some m \<longrightarrow> data_is_dir m \<noteq> None"
      by (auto simp: is_directory_node_def)
    from wf_load_children [OF assms this, of lw "data n"] Some True show ?thesis
      by (simp add: on_tree_node_expanded_def)
  qed
qed

lemma wf_on_tree_node_double_clicked:
  "wf_tree (file_tree s) \<Longrightarrow>
   wf_tree (file_tree (state_of (on_tree_node_double_clicked pos s)))"
  by (simp add: on_tree_node_double_clicked_def wf_expand_at wf_flag_update
      split: option.splits)

lemma wf_action_refresh:
  assumes "wf_tree (file_tree s)"
  shows "wf_tree (file_tree (state_of (action_refresh lw s)))"
proof (cases "cursor_node s")
  case None
  from wf_refresh_roots [OF assms, of lw "[0..<length (children (file_tree s))]"] None
  show ?thesis
    by (cases "refresh_roots lw [0..<length (children (file_tree s))] s")
      (simp_all add: action_refresh_def notify_def)
next
  case (Some c)
  obtain pos n where c: "c = (pos, n)" by (cases c)
  with Some have node: "node_at (file_tree s) pos = Some n" by (simp add: cursor_node_Some)
  show ?thesis
  proof (cases "is_directory_node n")
    case True
    with node have "\<forall>m. node_at (file_tree s) pos = Some m \<longrightarrow> data_is_dir m \<noteq> None"
      by (auto simp: is_directory_node_def)
    from wf_load_then_expand [OF assms this] Some c True show ?thesis
      by (simp add: action_refresh_def)
  next
    case False
    show ?thesis
    proof (cases "parent_of s pos")
      case None
      with Some c False assms show ?thesis by (simp add: action_refresh_def)
    next
      case par: (Some pp)
      obtain ppos pn where pp: "pp = (ppos, pn)" by (cases pp)
      with par have pnode: "node_at (file_tree s) ppos = Some pn"
        by (auto simp: parent_of_def split: if_splits option.splits)
      show ?thesis
      proof (cases "data_is_dir pn = None")
        case True
        with Some c False par pp assms show ?thesis by (simp add: action_refresh_def)
      next
        case tagged: False
        with pnode have "\<forall>m. node_at (file_tree s) ppos = Some m \<longrightarrow> data_is_dir m \<noteq> None"
          by auto
        from wf_load_then_expand [OF assms this] Some c False par pp tagged show ?thesis
          by (simp add: action_refresh_def)
      qed
    qed
  qed
qed

lemma wf_action_open_selected:
  "wf_tree (file_tree s) \<Longrightarrow> wf_tree (file_tree (state_of (action_open_selected s)))"
  by (auto simp: action_open_selected_def open_file_def notify_def print_line_def
      split: option.splits sum.splits bool.splits prod.splits)

lemma wf_action_delete_selected:
  "wf_tree (file_tree s) \<Longrightarrow> wf_tree (file_tree (state_of (action_delete_selected s)))"
  by (auto simp: action_delete_selected_def notify_def
      split: option.splits sum.splits bool.splits prod.splits)

lemma wf_after_delete:
  assumes "wf_tree (file_tree s)"
  shows "wf_tree (file_tree (state_of (after_delete lw pos p s)))"
proof (cases "parent_of s pos")
  case None
  with assms show ?thesis by (simp add: after_delete_def notify_def)
next
  case par: (Some pp)
  obtain ppos pn where pp: "pp = (ppos, pn)" by (cases pp)
  with par have pnode: "node_at (file_tree s) ppos = Some pn"
    by (auto simp: parent_of_def split: if_splits option.splits)
  show ?thesis
  proof (cases "data_is_dir pn = None")
    case True
    with par pp assms show ?thesis by (simp add: after_delete_def notify_def)
  next
    case tagged: False
    with pnode have "\<forall>m. node_at (file_tree s) ppos = Some m \<longrightarrow> data_is_dir m \<noteq> None"
      by auto
    from wf_load_then_expand [OF assms this] par pp tagged show ?thesis
      by (simp add: after_delete_def)
  qed
qed

lemma wf_delete_body:
  assumes "wf_tree (file_tree s)"
  shows "wf_tree (file_tree (state_of (delete_body lw pos n s)))"
proof -
  have step: "wf_tree (file_tree (state_of (after_delete lw pos p (s\<lparr>files := f, fs_calls := c\<rparr>))))"
    for p f c
    using assms by (intro wf_after_delete) simp
  from assms step wf_after_delete [OF assms] show ?thesis
    by (auto simp: delete_body_def split: option.splits sum.splits bool.splits prod.splits)
qed

lemma wf_handle_delete_confirm:
  assumes "wf_tree (file_tree s)"
  shows "wf_tree (file_tree (state_of (handle_delete_confirm lw confirmed s)))"
proof (cases confirmed)
  case False
  with assms show ?thesis by (simp add: handle_delete_confirm_def notify_def)
next
  case True
  show ?thesis
  proof (cases "cursor_node s")
    case None
    with True assms show ?thesis by (simp add: handle_delete_confirm_def)
  next
    case (Some c)
    obtain pos n where c: "c = (pos, n)" by (cases c)
    from wf_delete_body [OF assms, of lw pos n] True Some c show ?thesis
      by (cases "delete_body lw pos n s")
        (auto simp: handle_delete_confirm_def notify_def print_line_def split: exn.splits)
  qed
qed

lemma wf_mount_roots:
  "wf_tree (file_tree s) \<Longrightarrow> wf_tree (file_tree (state_of (mount_roots lw roots s)))"
proof (induction roots arbitrary: s)
  case Nil
  then show ?case by simp
next
  case (Cons root roots)
  let ?i = "length (children (file_tree s))"
  let ?node = "set_data_is_dir True (new_node (Folder (path_str root)) (Some root) True)"
  let ?s1 = "s\<lparr>file_tree := add_child ?node (file_tree s)\<rparr>"
  have wf1: "wf_tree (file_tree ?s1)"
    using Cons.prems
    by (auto simp: wf_tree_def add_child_def new_node_def is_directory_node_def)
  have at: "node_at (file_tree ?s1) [?i] = Some ?node"
    by (simp add: add_child_def)
  then have "\<forall>n. node_at (file_tree ?s1) [?i] = Some n \<longrightarrow> data_is_dir n \<noteq> None"
    by (auto simp: new_node_def)
  from wf_load_children [OF wf1 this, of lw "Some root"]
  have wf2: "wf_tree (file_tree (state_of (load_children lw [?i] (Some root) ?s1)))" .
  show ?case
  proof (cases "load_children lw [?i] (Some root) ?s1")
    case (Returned s')
    with wf2 have "wf_tree (file_tree s')" by simp
    from Cons.IH [OF this] Returned show ?thesis by (simp add: Let_def del: node_at.simps)
  next
    case (Raised e s')
    with wf2 show ?thesis by (simp add: Let_def del: node_at.simps)
  qed
qed

lemma wf_on_mount: "wf_tree (file_tree (state_of (on_mount lw s)))"
proof -
  let ?s0 = "s\<lparr>file_tree := initial_tree\<rparr>"
  have wf0: "wf_tree (file_tree ?s0)"
    by (simp add: wf_tree_def initial_tree_def)
  show ?thesis
  proof (cases "get_root_paths (files s) (host s)")
    case (Inl e)
    with wf0 show ?thesis by (simp add: on_mount_def)
  next
    case (Inr roots)
    with wf_mount_roots [OF wf0, of lw roots] show ?thesis by (simp add: on_mount_def)
  qed
qed

end
